theory Spec2Isabelle
  imports Main "HOL-Library.Word"
begin

unbundle bit_operations_syntax

section \<open>Permission flags (xdp-util.c, lines 8--76)\<close>

text \<open>
  \<open>XdpPermissionFlags\<close> is a C enumeration used as a bit mask; it is held in a 32-bit
  word here. The enumeration is declared in \<open>xdp-util.h\<close>, which is not among the
  sources at hand, so the values of its five constants below are modelled from the
  specification: a bit mask over a vocabulary of four flags, one token per set bit,
  and the full permission set.
\<close>

type_synonym XdpPermissionFlags = "32 word"

definition XDP_PERMISSION_FLAGS_READ :: XdpPermissionFlags where
  \<comment> \<open>Modelled from the spec: the enumeration \<open>XdpPermissionFlags\<close> is declared in
      \<open>xdp-util.h\<close>, which is not part of the sources at hand. The spec speaks of a
      bit mask over a vocabulary of four flags with one token per set bit; the four
      flags are taken as the four lowest bits, in the order of the tokens.\<close>
  "XDP_PERMISSION_FLAGS_READ = push_bit 0 1"

definition XDP_PERMISSION_FLAGS_WRITE :: XdpPermissionFlags where
  \<comment> \<open>Modelled from the spec: see \<open>XDP_PERMISSION_FLAGS_READ\<close>.\<close>
  "XDP_PERMISSION_FLAGS_WRITE = push_bit 1 1"

definition XDP_PERMISSION_FLAGS_GRANT_PERMISSIONS :: XdpPermissionFlags where
  \<comment> \<open>Modelled from the spec: see \<open>XDP_PERMISSION_FLAGS_READ\<close>.\<close>
  "XDP_PERMISSION_FLAGS_GRANT_PERMISSIONS = push_bit 2 1"

definition XDP_PERMISSION_FLAGS_DELETE :: XdpPermissionFlags where
  \<comment> \<open>Modelled from the spec: see \<open>XDP_PERMISSION_FLAGS_READ\<close>.\<close>
  "XDP_PERMISSION_FLAGS_DELETE = push_bit 3 1"

definition XDP_PERMISSION_FLAGS_ALL :: XdpPermissionFlags where
  \<comment> \<open>Modelled from the spec: the full permission set, all four flags together.\<close>
  "XDP_PERMISSION_FLAGS_ALL = push_bit 4 1 - 1"

text \<open>
  \<open>xdg_unparse_permissions\<close> fills a pointer array and ends it with \<open>NULL\<close>; the
  \<open>NULL\<close>-terminated array is the list of its tokens.
\<close>

definition xdg_unparse_permissions :: "XdpPermissionFlags \<Rightarrow> string list" where
  "xdg_unparse_permissions permissions =
     (if permissions AND XDP_PERMISSION_FLAGS_READ \<noteq> 0 then [''read''] else []) @
     (if permissions AND XDP_PERMISSION_FLAGS_WRITE \<noteq> 0 then [''write''] else []) @
     (if permissions AND XDP_PERMISSION_FLAGS_GRANT_PERMISSIONS \<noteq> 0
      then [''grant-permissions''] else []) @
     (if permissions AND XDP_PERMISSION_FLAGS_DELETE \<noteq> 0 then [''delete''] else [])"

text \<open>
  The loop of \<open>xdp_parse_permissions\<close>, with \<open>perms\<close> as its accumulator. The last
  branch only logs a warning (\<open>g_warning\<close>) and leaves \<open>perms\<close> as it is.
\<close>

fun xdp_parse_permissions_loop ::
  "XdpPermissionFlags \<Rightarrow> string list \<Rightarrow> XdpPermissionFlags" where
  "xdp_parse_permissions_loop perms [] = perms"
| "xdp_parse_permissions_loop perms (p # ps) =
     (if p = ''read''
      then xdp_parse_permissions_loop (perms OR XDP_PERMISSION_FLAGS_READ) ps
      else if p = ''write''
      then xdp_parse_permissions_loop (perms OR XDP_PERMISSION_FLAGS_WRITE) ps
      else if p = ''grant-permissions''
      then xdp_parse_permissions_loop (perms OR XDP_PERMISSION_FLAGS_GRANT_PERMISSIONS) ps
      else if p = ''delete''
      then xdp_parse_permissions_loop (perms OR XDP_PERMISSION_FLAGS_DELETE) ps
      else xdp_parse_permissions_loop perms ps)"

definition xdp_parse_permissions :: "string list \<Rightarrow> XdpPermissionFlags" where
  "xdp_parse_permissions permissions = xdp_parse_permissions_loop 0 permissions"

text \<open>
  A grant record (\<open>XdgAppDbEntry\<close>) is read here only through
  \<open>xdg_app_db_entry_list_permissions\<close>, which belongs to the permission store and is
  not among the sources at hand. The record is therefore taken as a parameter: it is
  represented by the token list that the store returns for each application id.
\<close>

type_synonym XdgAppDbEntry = "string \<Rightarrow> string list"

definition xdg_app_db_entry_list_permissions :: "XdgAppDbEntry \<Rightarrow> string \<Rightarrow> string list" where
  "xdg_app_db_entry_list_permissions entry app_id = entry app_id"

definition xdp_get_permissions :: "XdgAppDbEntry \<Rightarrow> string \<Rightarrow> XdpPermissionFlags" where
  "xdp_get_permissions entry app_id =
     (if app_id = '''' then XDP_PERMISSION_FLAGS_ALL
      else xdp_parse_permissions (xdg_app_db_entry_list_permissions entry app_id))"

definition xdp_has_permissions ::
  "XdgAppDbEntry \<Rightarrow> string \<Rightarrow> XdpPermissionFlags \<Rightarrow> bool" where
  "xdp_has_permissions entry app_id perms =
     (let current_perms = xdp_get_permissions entry app_id
      in current_perms AND perms = perms)"


section \<open>Document ids and their names (xdp-util.c, lines 78--88)\<close>

text \<open>
  \<open>xdp_name_from_id\<close> prints a \<open>guint32\<close> with the \<open>printf\<close> conversion \<open>%x\<close>:
  lower-case hexadecimal, most significant digit first, no leading zeros, and the
  single digit \<open>0\<close> for zero.
\<close>

definition hex_digit :: "nat \<Rightarrow> char" where
  "hex_digit k = ''0123456789abcdef'' ! (k mod 16)"

function printf_x :: "nat \<Rightarrow> string" where
  "printf_x n = (if n < 16 then [hex_digit n] else printf_x (n div 16) @ [hex_digit (n mod 16)])"
  by pat_completeness auto
termination
  by (relation "measure (\<lambda>n. n)") auto

declare printf_x.simps [simp del]

definition xdp_name_from_id :: "32 word \<Rightarrow> string" where
  "xdp_name_from_id doc_id = printf_x (unat doc_id)"

text \<open>
  \<open>g_ascii_strtoull\<close> (GLib) behaves as \<open>strtoull\<close> in the C locale: it skips leading
  white space, takes an optional sign, for base 16 an optional \<open>0x\<close> or \<open>0X\<close>, and
  then the longest run of digits of the base. A value that does not fit 64 bits is
  reported as \<open>G_MAXUINT64\<close>; a leading minus negates the result modulo \<open>2 ^ 64\<close>.
  The 64-bit accumulator is a natural number here, with the overflow test of the
  library written out. The automatic choice of the base (base 0) is left out: the only
  call passes 16.
\<close>

definition G_MAXUINT64 :: nat where
  "G_MAXUINT64 = 2 ^ 64 - 1"

definition ISSPACE :: "char \<Rightarrow> bool" where
  "ISSPACE c = (c = CHR '' '' \<or> c = CHR 0x0C \<or> c = CHR 0x0A \<or> c = CHR 0x0D
     \<or> c = CHR 0x09 \<or> c = CHR 0x0B)"

definition TOUPPER :: "char \<Rightarrow> char" where
  "TOUPPER c = (if 97 \<le> (of_char c :: nat) \<and> (of_char c :: nat) \<le> 122
     then char_of ((of_char c :: nat) - 32) else c)"

definition ISALPHA :: "char \<Rightarrow> bool" where
  "ISALPHA c = (65 \<le> (of_char c :: nat) \<and> (of_char c :: nat) \<le> 90
     \<or> 97 \<le> (of_char c :: nat) \<and> (of_char c :: nat) \<le> 122)"

definition digit_value :: "char \<Rightarrow> nat option" where
  "digit_value c =
     (if 48 \<le> (of_char c :: nat) \<and> (of_char c :: nat) \<le> 57
      then Some ((of_char c :: nat) - 48)
      else if ISALPHA c then Some ((of_char (TOUPPER c) :: nat) - 65 + 10)
      else None)"

fun parse_digits :: "nat \<Rightarrow> nat \<Rightarrow> bool \<Rightarrow> string \<Rightarrow> nat \<times> bool" where
  "parse_digits base ui64 overflow [] = (ui64, overflow)"
| "parse_digits base ui64 overflow (c # s) =
     (case digit_value c of
        None \<Rightarrow> (ui64, overflow)
      | Some d \<Rightarrow>
          if d \<ge> base then (ui64, overflow)
          else if ui64 > G_MAXUINT64 div base
                  \<or> (ui64 = G_MAXUINT64 div base \<and> d > G_MAXUINT64 mod base)
          then parse_digits base ui64 True s
          else parse_digits base (ui64 * base + d) overflow s)"

definition g_parse_long_long :: "string \<Rightarrow> nat \<Rightarrow> nat \<times> bool" where
  \<comment> \<open>the value read and whether a minus sign came first\<close>
  "g_parse_long_long nptr base =
     (let s0 = dropWhile ISSPACE nptr;
          negative = (case s0 of [] \<Rightarrow> False | c # _ \<Rightarrow> c = CHR ''-'');
          s1 = (case s0 of [] \<Rightarrow> []
                | c # cs \<Rightarrow> if c = CHR ''-'' \<or> c = CHR ''+'' then cs else s0);
          s2 = (case s1 of
                  c0 # c1 # cs \<Rightarrow>
                    if c0 = CHR ''0'' \<and> base = 16 \<and> TOUPPER c1 = CHR ''X'' then cs else s1
                | _ \<Rightarrow> s1);
          (ui64, overflow) = parse_digits base 0 False s2
      in (if overflow then G_MAXUINT64 else ui64, negative))"

definition g_ascii_strtoull :: "string \<Rightarrow> nat \<Rightarrow> nat" where
  "g_ascii_strtoull nptr base =
     (let (result, negative) = g_parse_long_long nptr base
      in if negative then (2 ^ 64 - result) mod 2 ^ 64 else result)"

text \<open>The \<open>guint64\<close> result is returned as a \<open>guint32\<close>: the conversion keeps the low 32 bits.\<close>

definition xdp_id_from_name :: "string \<Rightarrow> 32 word" where
  "xdp_id_from_name nm = of_nat (g_ascii_strtoull nm 16)"

section \<open>The application-id cache (xdp-util.c, lines 124--306)\<close>

subsection \<open>String helpers of GLib and libc\<close>

definition g_str_has_prefix :: "string \<Rightarrow> string \<Rightarrow> bool" where
  "g_str_has_prefix str pfx = (take (length pfx) str = pfx)"

definition g_str_has_suffix :: "string \<Rightarrow> string \<Rightarrow> bool" where
  "g_str_has_suffix str sfx =
     (if length str < length sfx then False
      else drop (length str - length sfx) str = sfx)"

definition G_IS_DIR_SEPARATOR :: "char \<Rightarrow> bool" where
  "G_IS_DIR_SEPARATOR c = (c = CHR ''/'')"

text \<open>
  \<open>g_path_get_basename\<close>: \<open>.\<close> for the empty string, \<open>/\<close> for a string of slashes
  only, otherwise the last component with trailing slashes removed.
\<close>

definition g_path_get_basename :: "string \<Rightarrow> string" where
  "g_path_get_basename file_name =
     (if file_name = [] then ''.''
      else let stripped = rev (dropWhile G_IS_DIR_SEPARATOR (rev file_name))
           in if stripped = [] then ''/''
              else rev (takeWhile (\<lambda>c. \<not> G_IS_DIR_SEPARATOR c) (rev stripped)))"

text \<open>\<open>strchr\<close>: the offset of the first occurrence of the character, \<open>None\<close> for \<open>NULL\<close>.\<close>

fun strchr :: "string \<Rightarrow> char \<Rightarrow> nat option" where
  "strchr [] c = None"
| "strchr (x # xs) c = (if x = c then Some 0 else map_option Suc (strchr xs c))"

text \<open>
  \<open>g_strsplit\<close> with a one-character delimiter and no limit on the number of tokens:
  the empty string gives no token at all, any other string one token more than it has
  delimiters.
\<close>

fun g_strsplit_from :: "string \<Rightarrow> string \<Rightarrow> char \<Rightarrow> string list" where
  "g_strsplit_from tok [] d = [tok]"
| "g_strsplit_from tok (c # cs) d =
     (if c = d then tok # g_strsplit_from [] cs d else g_strsplit_from (tok @ [c]) cs d)"

definition g_strsplit :: "string \<Rightarrow> char \<Rightarrow> string list" where
  "g_strsplit str d = (if str = [] then [] else g_strsplit_from [] str d)"

subsection \<open>Entries, tasks and the table\<close>

text \<open>A \<open>GTask\<close> is known by an identifier; it carries one caller's request.\<close>

type_synonym GTask = nat

datatype XdpError = XDP_ERROR_FAILED

text \<open>
  What a task is completed with: \<open>g_task_return_new_error\<close> with \<open>XDP_ERROR_FAILED\<close>
  (``Can't find app id''), or \<open>g_task_return_pointer\<close> with a copy of the application id.
\<close>

type_synonym task_result = "XdpError + string"

record AppIdInfo =
  name :: string
  app_id :: "string option"
  exited :: bool
  pending :: "GTask list"

text \<open>
  The state: the static hash table \<open>app_ids\<close> (\<open>None\<close> while the pointer is \<open>NULL\<close>),
  the credential queries (\<open>GetConnectionUnixProcessID\<close>) sent and not yet answered,
  each written as the connection name it asks about, and the completions of tasks in
  the order in which they were made. The callback of a query is given the pointer to
  the entry; an entry is identified here by the key that holds it in the table.
\<close>

record xdp_state =
  app_ids :: "(string \<rightharpoonup> AppIdInfo) option"
  queries :: "string list"
  returned :: "(GTask \<times> task_result) list"

definition initial_state :: xdp_state where
  "initial_state = \<lparr>app_ids = None, queries = [], returned = []\<rparr>"

definition ensure_app_ids :: "xdp_state \<Rightarrow> xdp_state" where
  "ensure_app_ids s =
     (case app_ids s of None \<Rightarrow> s\<lparr>app_ids := Some Map.empty\<rparr> | Some _ \<Rightarrow> s)"

text \<open>The hash-table calls do nothing on a \<open>NULL\<close> table (they return after a check).\<close>

definition g_hash_table_lookup ::
  "(string \<rightharpoonup> AppIdInfo) option \<Rightarrow> string \<Rightarrow> AppIdInfo option" where
  "g_hash_table_lookup tbl key = (case tbl of None \<Rightarrow> None | Some m \<Rightarrow> m key)"

definition g_hash_table_insert ::
  "(string \<rightharpoonup> AppIdInfo) option \<Rightarrow> string \<Rightarrow> AppIdInfo \<Rightarrow> (string \<rightharpoonup> AppIdInfo) option" where
  "g_hash_table_insert tbl key info = map_option (\<lambda>m. m(key \<mapsto> info)) tbl"

definition g_hash_table_remove ::
  "(string \<rightharpoonup> AppIdInfo) option \<Rightarrow> string \<Rightarrow> (string \<rightharpoonup> AppIdInfo) option" where
  "g_hash_table_remove tbl key = map_option (\<lambda>m. m(key := None)) tbl"

subsection \<open>Reading the control-group file (got_credentials_cb, lines 175--200)\<close>

text \<open>
  The body of the loop over the lines of the file, applied to the current value of
  \<open>info->app_id\<close> and one line; it returns the new value of \<open>info->app_id\<close>. Writing
  a zero byte at the dash and copying \<open>name\<close> keeps the characters before the dash.
\<close>

definition scan_line :: "string option \<Rightarrow> string \<Rightarrow> string option" where
  "scan_line cur line =
     (if g_str_has_prefix line ''1:name=systemd:''
      then let unit = drop (length ''1:name=systemd:'') line;
               scope = g_path_get_basename unit
           in if g_str_has_prefix scope ''xdg-app-'' \<and> g_str_has_suffix scope ''.scope''
              then let nm = drop (length ''xdg-app-'') scope
                   in (case strchr nm (CHR ''-'') of
                         Some dash \<Rightarrow> Some (take dash nm)
                       | None \<Rightarrow> cur)
              else Some ''''
      else cur)"

fun scan_lines :: "string option \<Rightarrow> string list \<Rightarrow> string option" where
  "scan_lines cur [] = cur"
| "scan_lines cur (line # rest) = scan_lines (scan_line cur line) rest"

text \<open>
  Lines 159--169. The reply is \<open>None\<close> when \<open>g_dbus_connection_send_message_with_reply_finish\<close>
  returns \<open>NULL\<close> (the query could not be sent, timed out or was cancelled) and
  otherwise the content of the variable \<open>pid\<close> after \<open>g_variant_get\<close> at line 169.
  The bus answers a query either with a method return, whose body holds the process
  id, or with an error message. Both are messages, so the reply is not \<open>NULL\<close> in
  either case, and the callback does not look at the type of the message. For an
  error message the body has not the type \<open>(u)\<close>: \<open>g_variant_get\<close> stores nothing,
  and \<open>pid\<close>, which is declared without an initialiser at line 165, keeps its
  indeterminate content, given here as \<open>uninit\<close>.
\<close>

datatype bus_answer = No_Reply | Method_Return "32 word" | Error_Message

definition credentials_reply :: "bus_answer \<Rightarrow> 32 word \<Rightarrow> 32 word option" where
  "credentials_reply answer uninit =
     (case answer of
        No_Reply \<Rightarrow> None
      | Method_Return pid \<Rightarrow> Some pid
      | Error_Message \<Rightarrow> Some uninit)"

text \<open>
  Lines 162--202, on the reply as above. \<open>proc_cgroup pid\<close> is what
  \<open>g_file_get_contents\<close> gives for \<open>/proc/pid/cgroup\<close>: \<open>None\<close> when the file cannot
  be read, otherwise its content as a C string.
\<close>

definition derive_app_id ::
  "AppIdInfo \<Rightarrow> 32 word option \<Rightarrow> (32 word \<Rightarrow> string option) \<Rightarrow> AppIdInfo" where
  "derive_app_id info reply proc_cgroup =
     (if \<not> exited info \<and> reply \<noteq> None
      then (case reply of
              None \<Rightarrow> info
            | Some pid \<Rightarrow>
                (case proc_cgroup pid of
                   None \<Rightarrow> info
                 | Some content \<Rightarrow>
                     info\<lparr>app_id := scan_lines (app_id info) (g_strsplit content (CHR 0x0A))\<rparr>))
      else info)"

text \<open>Lines 204--213: the loop over \<open>info->pending\<close>, from the head of the list.\<close>

fun return_pending :: "string option \<Rightarrow> GTask list \<Rightarrow> (GTask \<times> task_result) list" where
  "return_pending cur [] = []"
| "return_pending cur (task # l) =
     (case cur of
        None \<Rightarrow> (task, Inl XDP_ERROR_FAILED)
      | Some a \<Rightarrow> (task, Inr a)) # return_pending cur l"

text \<open>
  The callback of a credential query. \<open>key\<close> stands for the pointer \<open>user_data\<close>: the
  entry that the table holds under \<open>key\<close>. Were there no such entry the pointer would
  be dangling; the result is \<open>None\<close> then.
\<close>

definition got_credentials_cb ::
  "xdp_state \<Rightarrow> string \<Rightarrow> 32 word option \<Rightarrow> (32 word \<Rightarrow> string option) \<Rightarrow> xdp_state option" where
  "got_credentials_cb s key reply proc_cgroup =
     (case g_hash_table_lookup (app_ids s) key of
        None \<Rightarrow> None
      | Some info \<Rightarrow>
          let info1 = derive_app_id info reply proc_cgroup;
              done = return_pending (app_id info1) (pending info1);
              info2 = info1\<lparr>pending := []\<rparr>;
              tbl = g_hash_table_insert (app_ids s) key info2
          in Some (s\<lparr>returned := returned s @ done,
                     app_ids := (if app_id info2 = None
                                 then g_hash_table_remove tbl (name info2)
                                 else tbl)\<rparr>))"

text \<open>
  \<open>xdp_invocation_lookup_app_id\<close>: \<open>sender\<close> is the connection name of the invocation,
  \<open>task\<close> the task made for it.
\<close>

definition xdp_invocation_lookup_app_id :: "xdp_state \<Rightarrow> string \<Rightarrow> GTask \<Rightarrow> xdp_state" where
  "xdp_invocation_lookup_app_id s sender task =
     (let s1 = ensure_app_ids s;
          (info, s2) =
            (case g_hash_table_lookup (app_ids s1) sender of
               None \<Rightarrow>
                 let info = \<lparr>name = sender, app_id = None, exited = False, pending = []\<rparr>
                 in (info, s1\<lparr>app_ids := g_hash_table_insert (app_ids s1) (name info) info\<rparr>)
             | Some info \<Rightarrow> (info, s1))
      in case app_id info of
           Some a \<Rightarrow> s2\<lparr>returned := returned s2 @ [(task, Inr a)]\<rparr>
         | None \<Rightarrow>
             let s3 = (if pending info = [] then s2\<lparr>queries := queries s2 @ [sender]\<rparr> else s2)
             in s3\<lparr>app_ids :=
                    g_hash_table_insert (app_ids s3) sender (info\<lparr>pending := task # pending info\<rparr>)\<rparr>)"

text \<open>\<open>name_owner_changed\<close>, with the three strings of the signal's parameters.\<close>

definition name_owner_changed :: "xdp_state \<Rightarrow> string \<Rightarrow> string \<Rightarrow> string \<Rightarrow> xdp_state" where
  "name_owner_changed s nm from to =
     (let s1 = ensure_app_ids s
      in if (case nm of [] \<Rightarrow> False | c # _ \<Rightarrow> c = CHR '':'') \<and> nm = from \<and> to = ''''
         then (case g_hash_table_lookup (app_ids s1) nm of
                 None \<Rightarrow> s1
               | Some info \<Rightarrow>
                   let info1 = info\<lparr>exited := True\<rparr>
                   in if pending info1 = []
                      then s1\<lparr>app_ids := g_hash_table_remove (app_ids s1) nm\<rparr>
                      else s1\<lparr>app_ids := g_hash_table_insert (app_ids s1) nm info1\<rparr>)
         else s1)"

subsection \<open>Runs of the dispatcher\<close>

text \<open>
  Everything runs on one main loop, one call after the other. A run is a list of
  events: a call of \<open>xdp_invocation_lookup_app_id\<close>, the arrival of the answer to a
  query that is in flight (which takes the query out of \<open>queries\<close> and calls
  \<open>got_credentials_cb\<close> once), and a \<open>NameOwnerChanged\<close> signal.
\<close>

datatype event =
  Lookup string GTask
| Credentials string "32 word option" "32 word \<Rightarrow> string option"
| NameOwnerChanged string string string

fun step :: "xdp_state \<Rightarrow> event \<Rightarrow> xdp_state option" where
  "step s (Lookup sender task) = Some (xdp_invocation_lookup_app_id s sender task)"
| "step s (Credentials key reply proc_cgroup) =
     (if key \<in> set (queries s)
      then got_credentials_cb (s\<lparr>queries := remove1 key (queries s)\<rparr>) key reply proc_cgroup
      else None)"
| "step s (NameOwnerChanged nm from to) = Some (name_owner_changed s nm from to)"

fun run :: "xdp_state \<Rightarrow> event list \<Rightarrow> xdp_state option" where
  "run s [] = Some s"
| "run s (e # es) = (case step s e of None \<Rightarrow> None | Some s' \<Rightarrow> run s' es)"

text \<open>What the table holds under a connection name (nothing while the table is \<open>NULL\<close>).\<close>

definition entry_of :: "xdp_state \<Rightarrow> string \<Rightarrow> AppIdInfo option" where
  "entry_of s key = g_hash_table_lookup (app_ids s) key"

text \<open>
  The invariant of the table: every entry is stored under its own name, has waiters
  exactly while a query for it is in flight, and is unresolved exactly while it has
  waiters; no connection name has two queries in flight.
\<close>

definition table_inv :: "xdp_state \<Rightarrow> bool" where
  "table_inv s =
     (distinct (queries s) \<and>
      (\<forall>key \<in> set (queries s). entry_of s key \<noteq> None) \<and>
      (\<forall>key info. entry_of s key = Some info \<longrightarrow>
         name info = key \<and>
         ((pending info \<noteq> []) = (key \<in> set (queries s))) \<and>
         ((app_id info = None) = (pending info \<noteq> []))))"

text \<open>The tasks that wait for the answer to the query about a connection name.\<close>

definition waiting :: "xdp_state \<Rightarrow> string \<Rightarrow> GTask list" where
  "waiting s key = (case entry_of s key of None \<Rightarrow> [] | Some info \<Rightarrow> pending info)"

section \<open>Properties of the permission flags\<close>

lemmas flag_defs = XDP_PERMISSION_FLAGS_READ_def XDP_PERMISSION_FLAGS_WRITE_def
  XDP_PERMISSION_FLAGS_GRANT_PERMISSIONS_def XDP_PERMISSION_FLAGS_DELETE_def XDP_PERMISSION_FLAGS_ALL_def

lemma and_single_bit:
  "(f::32 word) AND push_bit n 1 = (if bit f n then push_bit n 1 else 0)"
  by (rule bit_word_eqI) (auto simp add: bit_simps)

lemma mask4: "(f :: 32 word) AND push_bit 0 1 OR f AND push_bit 1 1 OR f AND push_bit 2 1 OR f AND push_bit 3 1 = f AND (push_bit 4 1 - 1)"
proof -
  have "f AND push_bit 0 1 OR f AND push_bit 1 1 OR f AND push_bit 2 1 OR f AND push_bit 3 1
      = f AND (push_bit 0 1 OR push_bit 1 1 OR push_bit 2 1 OR push_bit 3 1)"
    by (simp only: bit.conj_disj_distrib)
  also have "(push_bit 0 1 OR push_bit 1 1 OR push_bit 2 1 OR push_bit 3 1 :: 32 word) = push_bit 4 1 - 1"
    by simp
  finally show ?thesis .
qed

lemma loop_append:
  "xdp_parse_permissions_loop a (ps @ qs) = xdp_parse_permissions_loop (xdp_parse_permissions_loop a ps) qs"
  by (induction ps arbitrary: a) simp_all

lemma flag_test:
  "(if f AND XDP_PERMISSION_FLAGS_READ \<noteq> 0 then XDP_PERMISSION_FLAGS_READ else 0) = f AND XDP_PERMISSION_FLAGS_READ"
  "(if f AND XDP_PERMISSION_FLAGS_WRITE \<noteq> 0 then XDP_PERMISSION_FLAGS_WRITE else 0) = f AND XDP_PERMISSION_FLAGS_WRITE"
  "(if f AND XDP_PERMISSION_FLAGS_GRANT_PERMISSIONS \<noteq> 0 then XDP_PERMISSION_FLAGS_GRANT_PERMISSIONS else 0) = f AND XDP_PERMISSION_FLAGS_GRANT_PERMISSIONS"
  "(if f AND XDP_PERMISSION_FLAGS_DELETE \<noteq> 0 then XDP_PERMISSION_FLAGS_DELETE else 0) = f AND XDP_PERMISSION_FLAGS_DELETE"
  unfolding flag_defs and_single_bit by simp_all

lemma parse_unparse_cases:
  "xdp_parse_permissions (xdg_unparse_permissions f) =
    (if f AND XDP_PERMISSION_FLAGS_READ \<noteq> 0 then XDP_PERMISSION_FLAGS_READ else 0) OR
    (if f AND XDP_PERMISSION_FLAGS_WRITE \<noteq> 0 then XDP_PERMISSION_FLAGS_WRITE else 0) OR
    (if f AND XDP_PERMISSION_FLAGS_GRANT_PERMISSIONS \<noteq> 0 then XDP_PERMISSION_FLAGS_GRANT_PERMISSIONS else 0) OR
    (if f AND XDP_PERMISSION_FLAGS_DELETE \<noteq> 0 then XDP_PERMISSION_FLAGS_DELETE else 0)"
  unfolding xdp_parse_permissions_def xdg_unparse_permissions_def
  by (simp add: loop_append ac_simps)

lemma parse_unparse_mask:
  "xdp_parse_permissions (xdg_unparse_permissions f) = f AND XDP_PERMISSION_FLAGS_ALL"
  unfolding parse_unparse_cases flag_test
  unfolding flag_defs by (simp only: mask4)

lemma all_flags:
  "XDP_PERMISSION_FLAGS_READ OR XDP_PERMISSION_FLAGS_WRITE OR
   XDP_PERMISSION_FLAGS_GRANT_PERMISSIONS OR XDP_PERMISSION_FLAGS_DELETE = XDP_PERMISSION_FLAGS_ALL"
  unfolding flag_defs by simp

text \<open>
  Claim C7. For every flag value \<open>f\<close> that is a combination of the four flags read,
  write, grant-permissions and delete, parsing the tokens that unparsing produces
  gives \<open>f\<close> back; and a token that is none of the four names contributes no bits,
  wherever it stands in the token sequence.
\<close>

theorem xdp_parse_unparse_permissions:
  "(f AND (XDP_PERMISSION_FLAGS_READ OR XDP_PERMISSION_FLAGS_WRITE OR
           XDP_PERMISSION_FLAGS_GRANT_PERMISSIONS OR XDP_PERMISSION_FLAGS_DELETE) = f
      \<longrightarrow> xdp_parse_permissions (xdg_unparse_permissions f) = f) \<and>
   (p \<notin> {''read'', ''write'', ''grant-permissions'', ''delete''}
      \<longrightarrow> xdp_parse_permissions (ps @ p # qs) = xdp_parse_permissions (ps @ qs))"
proof (intro conjI impI)
  assume "f AND (XDP_PERMISSION_FLAGS_READ OR XDP_PERMISSION_FLAGS_WRITE OR
           XDP_PERMISSION_FLAGS_GRANT_PERMISSIONS OR XDP_PERMISSION_FLAGS_DELETE) = f"
  then have "f AND XDP_PERMISSION_FLAGS_ALL = f"
    by (simp only: all_flags)
  then show "xdp_parse_permissions (xdg_unparse_permissions f) = f"
    by (simp only: parse_unparse_mask)
next
  assume "p \<notin> {''read'', ''write'', ''grant-permissions'', ''delete''}"
  then show "xdp_parse_permissions (ps @ p # qs) = xdp_parse_permissions (ps @ qs)"
    unfolding xdp_parse_permissions_def by (simp add: loop_append)
qed

theorem xdp_parse_unparse_permissions_witness:
  "(5 :: XdpPermissionFlags) AND (XDP_PERMISSION_FLAGS_READ OR XDP_PERMISSION_FLAGS_WRITE OR
           XDP_PERMISSION_FLAGS_GRANT_PERMISSIONS OR XDP_PERMISSION_FLAGS_DELETE) = 5 \<and>
   xdg_unparse_permissions 5 = [''read'', ''grant-permissions''] \<and>
   xdp_parse_permissions (xdg_unparse_permissions 5) = 5 \<and>
   ''execute'' \<notin> {''read'', ''write'', ''grant-permissions'', ''delete''} \<and>
   xdp_parse_permissions ([''read''] @ ''execute'' # [''delete'']) =
     xdp_parse_permissions ([''read''] @ [''delete''])"
proof -
  have h: "(5 :: XdpPermissionFlags) AND (XDP_PERMISSION_FLAGS_READ OR XDP_PERMISSION_FLAGS_WRITE OR
           XDP_PERMISSION_FLAGS_GRANT_PERMISSIONS OR XDP_PERMISSION_FLAGS_DELETE) = 5"
    unfolding flag_defs by simp
  have u: "xdg_unparse_permissions 5 = [''read'', ''grant-permissions'']"
    unfolding xdg_unparse_permissions_def flag_defs by simp
  have t: "''execute'' \<notin> {''read'', ''write'', ''grant-permissions'', ''delete''}"
    by simp
  from xdp_parse_unparse_permissions [of 5 "''execute''" "[''read'']" "[''delete'']"] h u t
  show ?thesis by (simp only: simp_thms)
qed

text \<open>
  Claim C8. For every grant record, \<open>xdp_get_permissions\<close> with the empty string as
  requester id returns \<open>XDP_PERMISSION_FLAGS_ALL\<close>, whatever the record holds; and
  \<open>xdp_has_permissions\<close> is true exactly when the permissions that
  \<open>xdp_get_permissions\<close> returns, masked with the required ones, are the required ones.
\<close>

theorem xdp_get_permissions_owner:
  "xdp_get_permissions entry '''' = XDP_PERMISSION_FLAGS_ALL \<and>
   xdp_get_permissions entry '''' = xdp_get_permissions entry' '''' \<and>
   xdp_has_permissions entry app perms =
     (xdp_get_permissions entry app AND perms = perms)"
  by (simp add: xdp_get_permissions_def xdp_has_permissions_def)

section \<open>Properties of document ids and names\<close>

lemma less_16_cases:
  "k < 16 \<Longrightarrow> k = 0 \<or> k = 1 \<or> k = 2 \<or> k = 3 \<or> k = 4 \<or> k = 5 \<or> k = 6 \<or> k = 7 \<or>
     k = 8 \<or> k = 9 \<or> k = 10 \<or> k = 11 \<or> k = 12 \<or> k = 13 \<or> k = 14 \<or> k = (15::nat)"
  by arith

lemma hex_digit_cases:
  "hex_digit k \<in> set ''0123456789abcdef''"
proof -
  have "k mod 16 < 16" by simp
  from less_16_cases [OF this] show ?thesis
    unfolding hex_digit_def by (elim disjE) simp_all
qed

lemma digit_value_hex_digit: "k < 16 \<Longrightarrow> digit_value (hex_digit k) = Some k"
proof -
  assume "k < 16"
  from less_16_cases [OF this] show ?thesis
    unfolding hex_digit_def digit_value_def ISALPHA_def TOUPPER_def
    by (elim disjE) simp_all
qed

lemma hex_char_props:
  assumes "c \<in> set ''0123456789abcdef''"
  shows "\<not> ISSPACE c" "c \<noteq> CHR ''-''" "c \<noteq> CHR ''+''" "TOUPPER c \<noteq> CHR ''X''"
    "\<exists>d. digit_value c = Some d \<and> d < 16"
  using assms unfolding ISSPACE_def TOUPPER_def digit_value_def ISALPHA_def
  by (auto simp add: char_of_eq_iff)

lemma set_printf_x: "set (printf_x n) \<subseteq> set ''0123456789abcdef''"
proof (induction n rule: printf_x.induct)
  case (1 n)
  show ?case
  proof (cases "n < 16")
    case True
    then show ?thesis using hex_digit_cases [of n] by (subst printf_x.simps) simp
  next
    case False
    then show ?thesis using 1 hex_digit_cases [of "n mod 16"]
      by (subst printf_x.simps) simp
  qed
qed

lemma printf_x_nonempty: "printf_x n \<noteq> []"
  by (subst printf_x.simps) simp

lemma parse_digits_append:
  "\<forall>c \<in> set xs. \<exists>d. digit_value c = Some d \<and> d < base \<Longrightarrow>
   parse_digits base acc ov (xs @ ys) =
     (case parse_digits base acc ov xs of (a, v) \<Rightarrow> parse_digits base a v ys)"
  by (induction xs arbitrary: acc ov) auto

lemma parse_digits_hex_digit:
  "k < 16 \<Longrightarrow> acc < 2 ^ 60 \<Longrightarrow> parse_digits 16 acc False [hex_digit k] = (acc * 16 + k, False)"
  by (simp add: digit_value_hex_digit G_MAXUINT64_def)

lemma parse_digits_printf_x:
  "n < 2 ^ 64 \<Longrightarrow> parse_digits 16 0 False (printf_x n) = (n, False)"
proof (induction n rule: printf_x.induct)
  case (1 n)
  show ?case
  proof (cases "n < 16")
    case True
    then show ?thesis
      using parse_digits_hex_digit [of n 0] by (subst printf_x.simps) simp
  next
    case False
    have small: "n div 16 < 2 ^ 60" using "1.prems" by simp
    then have ih: "parse_digits 16 0 False (printf_x (n div 16)) = (n div 16, False)"
      using "1.IH" False by simp
    have digits: "\<forall>c \<in> set (printf_x (n div 16)). \<exists>d. digit_value c = Some d \<and> d < 16"
      using set_printf_x [of "n div 16"] hex_char_props(5) by blast
    have "parse_digits 16 0 False (printf_x n) =
        parse_digits 16 (n div 16) False [hex_digit (n mod 16)]"
      using False by (subst printf_x.simps) (simp add: parse_digits_append [OF digits] ih)
    also have "\<dots> = (n div 16 * 16 + n mod 16, False)"
      using small by (intro parse_digits_hex_digit) simp_all
    finally show ?thesis by simp
  qed
qed

lemma g_parse_long_long_digits:
  assumes "s \<noteq> []" and "set s \<subseteq> set ''0123456789abcdef''"
  shows "g_parse_long_long s 16 =
    (case parse_digits 16 0 False s of (u, v) \<Rightarrow> (if v then G_MAXUINT64 else u, False))"
proof -
  obtain c cs where s: "s = c # cs"
    using assms(1) by (cases s) auto
  have c: "c \<in> set ''0123456789abcdef''"
    using assms(2) s by auto
  note pc = hex_char_props(1,2,3) [OF c]
  show ?thesis
  proof (cases cs)
    case Nil
    then show ?thesis
      unfolding g_parse_long_long_def s using pc by (simp add: Let_def)
  next
    case (Cons c1 r)
    then have "c1 \<in> set ''0123456789abcdef''"
      using assms(2) s by auto
    then have "TOUPPER c1 \<noteq> CHR ''X''" by (rule hex_char_props(4))
    then show ?thesis
      unfolding g_parse_long_long_def s Cons using pc by (simp add: Let_def)
  qed
qed

lemma g_parse_long_long_printf_x:
  assumes "n < 2 ^ 64"
  shows "g_parse_long_long (printf_x n) 16 = (n, False)"
  using g_parse_long_long_digits [OF printf_x_nonempty set_printf_x, of n]
    parse_digits_printf_x [OF assms] by simp

lemma xdp_name_from_id_example: "xdp_name_from_id 0xdeadbeef = ''deadbeef''"
  unfolding xdp_name_from_id_def
  by (simp add: printf_x.simps hex_digit_def)

lemma xdp_id_from_name_example: "xdp_id_from_name ''deadbeef'' = 0xdeadbeef"
  unfolding xdp_id_from_name_def g_ascii_strtoull_def g_parse_long_long_def
  by (simp add: ISSPACE_def TOUPPER_def digit_value_def ISALPHA_def G_MAXUINT64_def)

text \<open>
  Claim C10. For every 32-bit document id \<open>d\<close>, the name of \<open>d\<close> is made of lower-case
  hexadecimal digits only, and reading the name back in base 16 gives \<open>d\<close>.
\<close>

theorem xdp_id_from_name_from_id:
  "xdp_id_from_name (xdp_name_from_id d) = d \<and>
   set (xdp_name_from_id d) \<subseteq> set ''0123456789abcdef'' \<and>
   xdp_name_from_id d \<noteq> []"
proof -
  have "unat d < 2 ^ 32"
    using unsigned_less [of d] by simp
  then have "unat d < 2 ^ 64"
    by (rule order_less_trans) simp
  then have "xdp_id_from_name (xdp_name_from_id d) = d"
    unfolding xdp_id_from_name_def xdp_name_from_id_def g_ascii_strtoull_def
    by (simp add: g_parse_long_long_printf_x)
  then show ?thesis
    unfolding xdp_name_from_id_def using set_printf_x printf_x_nonempty by simp
qed

section \<open>Properties of the scan of the control-group file\<close>

lemmas string_helper_defs = g_str_has_prefix_def g_str_has_suffix_def g_path_get_basename_def
  G_IS_DIR_SEPARATOR_def g_strsplit_def

lemma strchr_eq:
  "strchr s c = (if c \<in> set s then Some (length (takeWhile (\<lambda>x. x \<noteq> c) s)) else None)"
  by (induction s) auto

lemma strchr_take:
  "(case strchr s c of Some i \<Rightarrow> Some (take i s) | None \<Rightarrow> cur) =
     (if c \<in> set s then Some (takeWhile (\<lambda>x. x \<noteq> c) s) else cur)"
  by (simp add: strchr_eq takeWhile_eq_take [symmetric])

lemma app_scope_intro:
  "g_str_has_prefix (''xdg-app-'' @ token @ ''.scope'') ''xdg-app-'' \<and>
   g_str_has_suffix (''xdg-app-'' @ token @ ''.scope'') ''.scope''"
  by (simp add: g_str_has_prefix_def g_str_has_suffix_def)

lemma drop_length_append: "drop (length xs + k) (xs @ ys) = drop k ys"
  by simp

lemma app_scope_elim:
  assumes p: "g_str_has_prefix scope ''xdg-app-''" and s: "g_str_has_suffix scope ''.scope''"
  shows "\<exists>token. scope = ''xdg-app-'' @ token @ ''.scope''"
proof -
  define rest where "rest = drop (length ''xdg-app-'') scope"
  from p have "take (length ''xdg-app-'') scope = ''xdg-app-''"
    unfolding g_str_has_prefix_def .
  then have "take (length ''xdg-app-'') scope @ drop (length ''xdg-app-'') scope =
      ''xdg-app-'' @ rest"
    unfolding rest_def by (simp only:)
  then have scope': "scope = ''xdg-app-'' @ rest"
    by (simp only: append_take_drop_id)
  from s have len: "6 \<le> length scope" and suf: "drop (length scope - 6) scope = ''.scope''"
    unfolding g_str_has_suffix_def by (auto simp add: eval_nat_numeral split: if_splits)
  have "6 \<le> length rest"
  proof (rule ccontr)
    assume "\<not> 6 \<le> length rest"
    then have "length rest < 6" by simp
    then consider "length rest = 0" | "length rest = 1" | "length rest = 2" | "length rest = 3"
      | "length rest = 4" | "length rest = 5" by linarith
    then show False
      using suf unfolding scope' by cases (auto simp add: eval_nat_numeral drop_Cons')
  qed
  then have e: "length scope - 6 = length ''xdg-app-'' + (length rest - 6)"
    unfolding scope' by simp
  have "drop (length ''xdg-app-'' + (length rest - 6)) (''xdg-app-'' @ rest) =
      drop (length rest - 6) rest"
    by (rule drop_length_append)
  then have "drop (length rest - 6) rest = ''.scope''"
    using suf by (simp only: e [symmetric] scope' [symmetric])
  then have "take (length rest - 6) rest @ drop (length rest - 6) rest =
      take (length rest - 6) rest @ ''.scope''"
    by (simp only:)
  then have r: "take (length rest - 6) rest @ ''.scope'' = rest"
    by (simp only: append_take_drop_id)
  have "scope = ''xdg-app-'' @ take (length rest - 6) rest @ ''.scope''"
    unfolding r by (rule scope')
  then show ?thesis by (rule exI [where x = "take (length rest - 6) rest"])
qed

lemma app_scope_iff:
  "g_str_has_prefix scope ''xdg-app-'' \<and> g_str_has_suffix scope ''.scope''
    \<longleftrightarrow> (\<exists>token. scope = ''xdg-app-'' @ token @ ''.scope'')"
proof
  assume "g_str_has_prefix scope ''xdg-app-'' \<and> g_str_has_suffix scope ''.scope''"
  then show "\<exists>token. scope = ''xdg-app-'' @ token @ ''.scope''"
    by (elim conjE) (rule app_scope_elim)
next
  assume "\<exists>token. scope = ''xdg-app-'' @ token @ ''.scope''"
  then obtain token where t: "scope = ''xdg-app-'' @ token @ ''.scope''" ..
  show "g_str_has_prefix scope ''xdg-app-'' \<and> g_str_has_suffix scope ''.scope''"
    unfolding t by (rule app_scope_intro)
qed

lemma scan_line_no_prefix:
  "\<not> g_str_has_prefix line ''1:name=systemd:'' \<Longrightarrow> scan_line cur line = cur"
  by (simp add: scan_line_def)

lemma systemd_prefix: "g_str_has_prefix (''1:name=systemd:'' @ unit) ''1:name=systemd:''"
  by (simp add: g_str_has_prefix_def)

lemma scan_line_systemd:
  "scan_line cur (''1:name=systemd:'' @ unit) =
     (if g_str_has_prefix (g_path_get_basename unit) ''xdg-app-'' \<and>
         g_str_has_suffix (g_path_get_basename unit) ''.scope''
      then (case strchr (drop (length ''xdg-app-'') (g_path_get_basename unit)) (CHR ''-'') of
              Some dash \<Rightarrow> Some (take dash (drop (length ''xdg-app-'') (g_path_get_basename unit)))
            | None \<Rightarrow> cur)
      else Some '''')"
proof -
  have unit: "drop (length ''1:name=systemd:'') (''1:name=systemd:'' @ unit) = unit"
    by simp
  show ?thesis
    unfolding scan_line_def Let_def unit
    by (simp only: systemd_prefix if_True)
qed

lemma scan_line_app_scope:
  assumes "g_path_get_basename unit = ''xdg-app-'' @ token @ ''.scope''"
  shows "scan_line cur (''1:name=systemd:'' @ unit) =
    (if CHR ''-'' \<in> set token then Some (takeWhile (\<lambda>c. c \<noteq> CHR ''-'') token) else cur)"
proof -
  have nm: "drop (length ''xdg-app-'') (''xdg-app-'' @ token @ ''.scope'') = token @ ''.scope''"
    by simp
  have mem: "CHR ''-'' \<in> set (token @ ''.scope'') \<longleftrightarrow> CHR ''-'' \<in> set token"
    by simp
  have tw: "takeWhile (\<lambda>c. c \<noteq> CHR ''-'') (token @ ''.scope'') =
      takeWhile (\<lambda>c. c \<noteq> CHR ''-'') token" if "CHR ''-'' \<in> set token"
    using that by (intro takeWhile_append1 [where x = "CHR ''-''"]) simp_all
  have "scan_line cur (''1:name=systemd:'' @ unit) =
      (case strchr (token @ ''.scope'') (CHR ''-'') of
         Some dash \<Rightarrow> Some (take dash (token @ ''.scope''))
       | None \<Rightarrow> cur)"
    unfolding scan_line_systemd assms nm
    by (simp only: app_scope_intro simp_thms if_True)
  also have "\<dots> = (if CHR ''-'' \<in> set token
      then Some (takeWhile (\<lambda>c. c \<noteq> CHR ''-'') (token @ ''.scope'')) else cur)"
    unfolding strchr_take mem ..
  also have "\<dots> = (if CHR ''-'' \<in> set token
      then Some (takeWhile (\<lambda>c. c \<noteq> CHR ''-'') token) else cur)"
    using tw by (simp only: cong: if_cong)
  finally show ?thesis .
qed

lemma scan_line_host:
  assumes "\<not> (\<exists>token. g_path_get_basename unit = ''xdg-app-'' @ token @ ''.scope'')"
  shows "scan_line cur (''1:name=systemd:'' @ unit) = Some ''''"
proof -
  have "\<not> (g_str_has_prefix (g_path_get_basename unit) ''xdg-app-'' \<and>
         g_str_has_suffix (g_path_get_basename unit) ''.scope'')"
    using assms unfolding app_scope_iff .
  then show ?thesis
    unfolding scan_line_systemd by (simp only: if_False)
qed

lemma derive_app_id_fields:
  "name (derive_app_id info reply fs) = name info"
  "pending (derive_app_id info reply fs) = pending info"
  "exited (derive_app_id info reply fs) = exited info"
  by (simp_all add: derive_app_id_def split: option.splits)

lemma return_pending_map:
  "return_pending cur l =
     map (\<lambda>task. (task, case cur of None \<Rightarrow> Inl XDP_ERROR_FAILED | Some a \<Rightarrow> Inr a)) l"
  by (induction l) (simp_all split: option.splits)

lemma systemd_prefix_elim:
  assumes "g_str_has_prefix l ''1:name=systemd:''"
  shows "l = ''1:name=systemd:'' @ drop (length ''1:name=systemd:'') l"
proof -
  have "take (length ''1:name=systemd:'') l @ drop (length ''1:name=systemd:'') l =
      ''1:name=systemd:'' @ drop (length ''1:name=systemd:'') l"
    using assms unfolding g_str_has_prefix_def by (simp only:)
  then show ?thesis
    by (simp only: append_take_drop_id)
qed

lemma scan_line_cases:
  "scan_line cur line = (case scan_line None line of None \<Rightarrow> cur | Some a \<Rightarrow> Some a)"
proof (cases "g_str_has_prefix line ''1:name=systemd:''")
  case False
  then show ?thesis by (simp add: scan_line_no_prefix)
next
  case True
  define unit where "unit = drop (length ''1:name=systemd:'') line"
  have line: "line = ''1:name=systemd:'' @ unit"
    unfolding unit_def using True by (rule systemd_prefix_elim)
  show ?thesis
    unfolding line scan_line_systemd by (simp split: option.splits)
qed

lemma scan_lines_append:
  "scan_lines cur (ls @ ls') = scan_lines (scan_lines cur ls) ls'"
  by (induction ls arbitrary: cur) simp_all

lemma scan_lines_no_prefix:
  "\<forall>l \<in> set ls. \<not> g_str_has_prefix l ''1:name=systemd:'' \<Longrightarrow> scan_lines cur ls = cur"
  by (induction ls arbitrary: cur) (simp_all add: scan_line_no_prefix)

lemma scan_lines_find:
  "scan_lines cur ls =
     (case find (\<lambda>l. scan_line None l \<noteq> None) (rev ls) of
        None \<Rightarrow> cur
      | Some l \<Rightarrow> scan_line None l)"
proof (induction ls rule: rev_induct)
  case Nil
  show ?case by simp
next
  case (snoc l ls)
  have "scan_lines cur (ls @ [l]) = scan_line (scan_lines cur ls) l"
    by (simp add: scan_lines_append)
  also have "\<dots> = (case scan_line None l of None \<Rightarrow> scan_lines cur ls | Some a \<Rightarrow> Some a)"
    by (rule scan_line_cases)
  finally show ?case
    using snoc.IH by (auto split: option.splits)
qed

lemma scan_line_yields_iff:
  "scan_line None l \<noteq> None \<longleftrightarrow>
     g_str_has_prefix l ''1:name=systemd:'' \<and>
     (\<forall>token. g_path_get_basename (drop (length ''1:name=systemd:'') l) = ''xdg-app-'' @ token @ ''.scope''
        \<longrightarrow> CHR ''-'' \<in> set token)"
proof (cases "g_str_has_prefix l ''1:name=systemd:''")
  case False
  then show ?thesis by (simp add: scan_line_no_prefix)
next
  case True
  define unit where "unit = drop (length ''1:name=systemd:'') l"
  have l: "l = ''1:name=systemd:'' @ unit"
    unfolding unit_def using True by (rule systemd_prefix_elim)
  show ?thesis
  proof (cases "\<exists>token. g_path_get_basename unit = ''xdg-app-'' @ token @ ''.scope''")
    case False
    then have "scan_line None l = Some ''''"
      unfolding l by (rule scan_line_host)
    then show ?thesis using False True unfolding unit_def by auto
  next
    case ex: True
    then obtain token where t: "g_path_get_basename unit = ''xdg-app-'' @ token @ ''.scope''"
      by blast
    have "scan_line None l =
        (if CHR ''-'' \<in> set token then Some (takeWhile (\<lambda>c. c \<noteq> CHR ''-'') token) else None)"
      unfolding l using t by (rule scan_line_app_scope)
    then show ?thesis using t True unfolding unit_def [symmetric] by auto
  qed
qed

lemma derive_app_id_scan:
  "\<not> exited info \<Longrightarrow> proc_cgroup pid = Some content \<Longrightarrow>
     app_id (derive_app_id info (Some pid) proc_cgroup) =
       scan_lines (app_id info) (g_strsplit content (CHR 0x0A))"
  by (simp add: derive_app_id_def)

lemma scan_lines_single:
  assumes "\<forall>l \<in> set before \<union> set after. \<not> g_str_has_prefix l ''1:name=systemd:''"
  shows "scan_lines cur (before @ line # after) = scan_line cur line"
  using assms by (simp add: scan_lines_append scan_lines_no_prefix)

text \<open>
  Claim C4. Take a line of the control-group file that starts with
  \<open>1:name=systemd:\<close>. If the base name of its unit path is \<open>xdg-app-\<close>, a token and
  \<open>.scope\<close>, and the token has a dash, the line sets the application id to the part of
  the token before its first dash; if the token has no dash the line leaves the
  application id as it was; if the base name is not of that form, the line sets the
  application id to the empty string. For an entry that is unresolved and not exited,
  and a file in which this is the only line with the prefix, the application id after
  the derivation is accordingly that part of the token, unresolved (every pending
  task then gets \<open>XDP_ERROR_FAILED\<close>), or the empty string.
\<close>

theorem cgroup_line_app_id:
  assumes live: "\<not> exited info" and unres: "app_id info = None"
    and cont: "proc_cgroup pid = Some content"
    and lines: "g_strsplit content (CHR 0x0A) = before @ (''1:name=systemd:'' @ unit) # after"
    and others: "\<forall>l \<in> set before \<union> set after. \<not> g_str_has_prefix l ''1:name=systemd:''"
  shows
   "(g_path_get_basename unit = ''xdg-app-'' @ token @ ''.scope'' \<and> CHR ''-'' \<in> set token \<longrightarrow>
       scan_line cur (''1:name=systemd:'' @ unit) = Some (takeWhile (\<lambda>c. c \<noteq> CHR ''-'') token) \<and>
       app_id (derive_app_id info (Some pid) proc_cgroup) =
         Some (takeWhile (\<lambda>c. c \<noteq> CHR ''-'') token)) \<and>
    (g_path_get_basename unit = ''xdg-app-'' @ token @ ''.scope'' \<and> CHR ''-'' \<notin> set token \<longrightarrow>
       scan_line cur (''1:name=systemd:'' @ unit) = cur \<and>
       app_id (derive_app_id info (Some pid) proc_cgroup) = None \<and>
       return_pending (app_id (derive_app_id info (Some pid) proc_cgroup)) (pending info) =
         map (\<lambda>task. (task, Inl XDP_ERROR_FAILED)) (pending info)) \<and>
    ((\<forall>tok. g_path_get_basename unit \<noteq> ''xdg-app-'' @ tok @ ''.scope'') \<longrightarrow>
       scan_line cur (''1:name=systemd:'' @ unit) = Some '''' \<and>
       app_id (derive_app_id info (Some pid) proc_cgroup) = Some '''')"
proof -
  have d: "app_id (derive_app_id info (Some pid) proc_cgroup) =
      scan_line None (''1:name=systemd:'' @ unit)"
    using derive_app_id_scan [of info proc_cgroup pid content] live cont
      scan_lines_single [OF others]
    unfolding lines unres by simp
  show ?thesis
    unfolding d
    by (auto simp add: scan_line_app_scope scan_line_host return_pending_map simp del: append.simps)
qed

theorem cgroup_line_app_id_witness:
  "app_id (derive_app_id \<lparr>name = '':1.5'', app_id = None, exited = False, pending = [1]\<rparr> (Some 42)
      [42 \<mapsto> ''2:cpu:/'' @ [CHR 0x0A] @
         ''1:name=systemd:/user.slice/xdg-app-myapp-12345.scope'' @ [CHR 0x0A]]) = Some ''myapp'' \<and>
   app_id (derive_app_id \<lparr>name = '':1.5'', app_id = None, exited = False, pending = [1]\<rparr> (Some 42)
      [42 \<mapsto> ''1:name=systemd:/xdg-app-noinstancemarker.scope'']) = None \<and>
   return_pending
     (app_id (derive_app_id \<lparr>name = '':1.5'', app_id = None, exited = False, pending = [1]\<rparr> (Some 42)
        [42 \<mapsto> ''1:name=systemd:/xdg-app-noinstancemarker.scope'']))
     (pending \<lparr>name = '':1.5'', app_id = None, exited = False, pending = [1]\<rparr>) =
     [(1, Inl XDP_ERROR_FAILED)] \<and>
   app_id (derive_app_id \<lparr>name = '':1.5'', app_id = None, exited = False, pending = [1]\<rparr> (Some 42)
      [42 \<mapsto> ''1:name=systemd:/system.slice/other.service'']) = Some ''''"
proof -
  let ?info = "\<lparr>name = '':1.5'', app_id = None, exited = False, pending = [1]\<rparr>"
  let ?a = "''2:cpu:/'' @ [CHR 0x0A] @
         ''1:name=systemd:/user.slice/xdg-app-myapp-12345.scope'' @ [CHR 0x0A]"
  let ?b = "''1:name=systemd:/xdg-app-noinstancemarker.scope''"
  let ?c = "''1:name=systemd:/system.slice/other.service''"
  have live: "\<not> exited ?info" and unres: "app_id ?info = None"
    by simp_all
  have a_lines: "g_strsplit ?a (CHR 0x0A) =
      [''2:cpu:/''] @ (''1:name=systemd:'' @ ''/user.slice/xdg-app-myapp-12345.scope'') # ['''']"
    by (simp add: g_strsplit_def)
  have a_others: "\<forall>l \<in> set [''2:cpu:/''] \<union> set ['''']. \<not> g_str_has_prefix l ''1:name=systemd:''"
    by (simp add: g_str_has_prefix_def)
  have a_scope: "g_path_get_basename ''/user.slice/xdg-app-myapp-12345.scope'' =
      ''xdg-app-'' @ ''myapp-12345'' @ ''.scope'' \<and> CHR ''-'' \<in> set ''myapp-12345''"
    by (simp add: string_helper_defs)
  have b_lines: "g_strsplit ?b (CHR 0x0A) =
      [] @ (''1:name=systemd:'' @ ''/xdg-app-noinstancemarker.scope'') # []"
    by (simp add: g_strsplit_def)
  have none: "\<forall>l \<in> set [] \<union> set []. \<not> g_str_has_prefix l ''1:name=systemd:''"
    by simp
  have b_scope: "g_path_get_basename ''/xdg-app-noinstancemarker.scope'' =
      ''xdg-app-'' @ ''noinstancemarker'' @ ''.scope'' \<and> CHR ''-'' \<notin> set ''noinstancemarker''"
    by (simp add: string_helper_defs)
  have c_lines: "g_strsplit ?c (CHR 0x0A) =
      [] @ (''1:name=systemd:'' @ ''/system.slice/other.service'') # []"
    by (simp add: g_strsplit_def)
  have c_scope: "\<forall>tok. g_path_get_basename ''/system.slice/other.service'' \<noteq>
      ''xdg-app-'' @ tok @ ''.scope''"
    by (simp add: string_helper_defs)
  have a: "app_id (derive_app_id ?info (Some 42) [42 \<mapsto> ?a]) =
      Some (takeWhile (\<lambda>c. c \<noteq> CHR ''-'') ''myapp-12345'')"
    using cgroup_line_app_id [OF live unres _ a_lines a_others, of "[42 \<mapsto> ?a]" 42
        "''myapp-12345''" None] a_scope
    by simp
  have b: "app_id (derive_app_id ?info (Some 42) [42 \<mapsto> ?b]) = None \<and>
      return_pending (app_id (derive_app_id ?info (Some 42) [42 \<mapsto> ?b])) (pending ?info) =
        map (\<lambda>task. (task, Inl XDP_ERROR_FAILED)) (pending ?info)"
    using cgroup_line_app_id [OF live unres _ b_lines none, of "[42 \<mapsto> ?b]" 42
        "''noinstancemarker''" None] b_scope
    by simp
  have c: "app_id (derive_app_id ?info (Some 42) [42 \<mapsto> ?c]) = Some ''''"
    using cgroup_line_app_id [OF live unres _ c_lines none, of "[42 \<mapsto> ?c]" 42 _ None] c_scope
    by simp
  from a b c show ?thesis by simp
qed

text \<open>
  Claim C9. The lines of the file are all scanned, in order: the application id at
  the end is what the last line that yields one yields, and the value from before the
  scan if no line yields one. A line yields an application id exactly if it has the
  prefix \<open>1:name=systemd:\<close> and the base name of its unit path is not an
  application scope without a dash. An application-scope line without a dash may be struck from the file
  without changing the outcome. The derivation step of the callback is this scan of the lines of the file.
\<close>

theorem scan_lines_last_resolution:
  "scan_lines cur ls =
     (case find (\<lambda>l. scan_line None l \<noteq> None) (rev ls) of
        None \<Rightarrow> cur
      | Some l \<Rightarrow> scan_line None l) \<and>
   (scan_line None l \<noteq> None \<longleftrightarrow>
      g_str_has_prefix l ''1:name=systemd:'' \<and>
      (\<forall>token. g_path_get_basename (drop (length ''1:name=systemd:'') l) = ''xdg-app-'' @ token @ ''.scope''
         \<longrightarrow> CHR ''-'' \<in> set token)) \<and>
   (g_path_get_basename unit = ''xdg-app-'' @ token @ ''.scope'' \<and> CHR ''-'' \<notin> set token \<longrightarrow>
      scan_lines cur (ls1 @ (''1:name=systemd:'' @ unit) # ls2) = scan_lines cur (ls1 @ ls2)) \<and>
   (\<not> exited info \<and> proc_cgroup pid = Some content \<longrightarrow>
      app_id (derive_app_id info (Some pid) proc_cgroup) =
        scan_lines (app_id info) (g_strsplit content (CHR 0x0A)))"
proof (intro conjI impI)
  show "scan_lines cur ls =
     (case find (\<lambda>l. scan_line None l \<noteq> None) (rev ls) of
        None \<Rightarrow> cur
      | Some l \<Rightarrow> scan_line None l)"
    by (rule scan_lines_find)
  show "scan_line None l \<noteq> None \<longleftrightarrow>
      g_str_has_prefix l ''1:name=systemd:'' \<and>
      (\<forall>token. g_path_get_basename (drop (length ''1:name=systemd:'') l) = ''xdg-app-'' @ token @ ''.scope''
         \<longrightarrow> CHR ''-'' \<in> set token)"
    by (rule scan_line_yields_iff)
next
  assume "g_path_get_basename unit = ''xdg-app-'' @ token @ ''.scope'' \<and> CHR ''-'' \<notin> set token"
  then have "scan_line c (''1:name=systemd:'' @ unit) = c" for c
    by (simp add: scan_line_app_scope del: append.simps)
  then show "scan_lines cur (ls1 @ (''1:name=systemd:'' @ unit) # ls2) = scan_lines cur (ls1 @ ls2)"
    by (simp add: scan_lines_append del: append.simps)
next
  assume "\<not> exited info \<and> proc_cgroup pid = Some content"
  then show "app_id (derive_app_id info (Some pid) proc_cgroup) =
        scan_lines (app_id info) (g_strsplit content (CHR 0x0A))"
    by (simp add: derive_app_id_scan)
qed

section \<open>Properties of the application-id cache\<close>

theorem scan_lines_last_resolution_witness:
  "scan_lines None
     [''1:name=systemd:/user.slice/xdg-app-first-1.scope'',
      ''1:name=systemd:/system.slice/other.service'',
      ''1:name=systemd:/xdg-app-nodash.scope''] = Some '''' \<and>
   scan_lines None
     [''1:name=systemd:/system.slice/other.service'',
      ''1:name=systemd:/user.slice/xdg-app-first-1.scope'',
      ''1:name=systemd:/xdg-app-nodash.scope''] = Some ''first'' \<and>
   app_id (derive_app_id \<lparr>name = '':1.5'', app_id = None, exited = False, pending = [1]\<rparr> (Some 42)
      [42 \<mapsto> ''1:name=systemd:/system.slice/other.service'' @ [CHR 0x0A] @
         ''1:name=systemd:/user.slice/xdg-app-first-1.scope'' @ [CHR 0x0A] @
         ''1:name=systemd:/xdg-app-nodash.scope'' @ [CHR 0x0A]]) = Some ''first''"
proof -
  let ?scoped = "''1:name=systemd:/user.slice/xdg-app-first-1.scope''"
  let ?host = "''1:name=systemd:/system.slice/other.service''"
  let ?nodash = "''1:name=systemd:/xdg-app-nodash.scope''"
  let ?info = "\<lparr>name = '':1.5'', app_id = None, exited = False, pending = [1]\<rparr>"
  let ?content = "?host @ [CHR 0x0A] @ ?scoped @ [CHR 0x0A] @ ?nodash @ [CHR 0x0A]"
  have scoped: "scan_line None ?scoped = Some ''first''"
    by (simp add: scan_line_def string_helper_defs)
  have host: "scan_line None ?host = Some ''''"
    by (simp add: scan_line_def string_helper_defs)
  have nodash: "scan_line None ?nodash = None"
    by (simp add: scan_line_def string_helper_defs)
  have empty: "scan_line None '''' = None"
    by (simp add: scan_line_def string_helper_defs)
  have nodash_scope: "g_path_get_basename ''/xdg-app-nodash.scope'' =
      ''xdg-app-'' @ ''nodash'' @ ''.scope'' \<and> CHR ''-'' \<notin> set ''nodash''"
    by (simp add: string_helper_defs)
  have lines: "g_strsplit ?content (CHR 0x0A) = [?host, ?scoped, ?nodash, '''']"
    by (simp add: g_strsplit_def)
  have first: "scan_lines None [?scoped, ?host, ?nodash] = Some ''''"
    using scan_lines_last_resolution [of None "[?scoped, ?host, ?nodash]"]
    by (simp add: scoped host nodash)
  have struck: "scan_lines None ([?host, ?scoped] @ (''1:name=systemd:'' @ ''/xdg-app-nodash.scope'') # []) =
      scan_lines None ([?host, ?scoped] @ [])"
    using scan_lines_last_resolution [of None "[]" "[]" "''/xdg-app-nodash.scope''" "''nodash''"
        "[?host, ?scoped]" "[]"] nodash_scope
    by (simp only: simp_thms)
  have second: "scan_lines None [?host, ?scoped, ?nodash] = Some ''first''"
    using scan_lines_last_resolution [of None "[?host, ?scoped]"] struck
    by (simp add: scoped host)
  have "app_id (derive_app_id ?info (Some 42) [42 \<mapsto> ?content]) =
      scan_lines (app_id ?info) (g_strsplit ?content (CHR 0x0A))"
    using scan_lines_last_resolution [of None "[]" "[]" "[]" "[]" "[]" "[]" ?info
        "[42 \<mapsto> ?content]" 42 ?content]
    by simp
  also have "\<dots> = scan_lines None [?host, ?scoped, ?nodash, '''']"
    unfolding lines by simp
  also have "\<dots> = Some ''first''"
    using scan_lines_last_resolution [of None "[?host, ?scoped, ?nodash, '''']"]
    by (simp add: scoped host nodash empty)
  finally show ?thesis using first second by simp
qed

lemma entry_of_initial: "entry_of initial_state key = None"
  by (simp add: entry_of_def initial_state_def g_hash_table_lookup_def)

lemma lookup_entry_of:
  "entry_of (xdp_invocation_lookup_app_id s sender task) =
     (case entry_of s sender of
        None \<Rightarrow> (entry_of s)(sender \<mapsto> \<lparr>name = sender, app_id = None, exited = False, pending = [task]\<rparr>)
      | Some info \<Rightarrow>
          (case app_id info of
             Some a \<Rightarrow> entry_of s
           | None \<Rightarrow> (entry_of s)(sender \<mapsto> info\<lparr>pending := task # pending info\<rparr>)))"
  by (cases "app_ids s")
     (auto simp add: xdp_invocation_lookup_app_id_def entry_of_def g_hash_table_lookup_def
        g_hash_table_insert_def ensure_app_ids_def Let_def fun_eq_iff split: option.splits)

lemma lookup_queries:
  "queries (xdp_invocation_lookup_app_id s sender task) =
     (case entry_of s sender of
        None \<Rightarrow> queries s @ [sender]
      | Some info \<Rightarrow>
          if app_id info = None \<and> pending info = [] then queries s @ [sender] else queries s)"
  by (cases "app_ids s")
     (auto simp add: xdp_invocation_lookup_app_id_def entry_of_def g_hash_table_lookup_def
        g_hash_table_insert_def ensure_app_ids_def Let_def split: option.splits)

lemma lookup_returned:
  "returned (xdp_invocation_lookup_app_id s sender task) =
     (case entry_of s sender of
        None \<Rightarrow> returned s
      | Some info \<Rightarrow>
          (case app_id info of
             Some a \<Rightarrow> returned s @ [(task, Inr a)]
           | None \<Rightarrow> returned s))"
  by (cases "app_ids s")
     (auto simp add: xdp_invocation_lookup_app_id_def entry_of_def g_hash_table_lookup_def
        g_hash_table_insert_def ensure_app_ids_def Let_def split: option.splits)

lemma entry_of_queries_update [simp]:
  "entry_of (s\<lparr>queries := q\<rparr>) = entry_of s"
  by (simp add: entry_of_def fun_eq_iff)

lemma got_credentials_cb_None:
  "entry_of s key = None \<Longrightarrow> got_credentials_cb s key reply fs = None"
  by (simp add: got_credentials_cb_def entry_of_def)

lemma got_credentials_cb_Some:
  assumes "entry_of s key = Some info"
  shows "\<exists>s'. got_credentials_cb s key reply fs = Some s' \<and>
     queries s' = queries s \<and>
     returned s' = returned s @ return_pending (app_id (derive_app_id info reply fs)) (pending info) \<and>
     entry_of s' =
       (if app_id (derive_app_id info reply fs) = None
        then ((entry_of s)(key \<mapsto> (derive_app_id info reply fs)\<lparr>pending := []\<rparr>))(name info := None)
        else (entry_of s)(key \<mapsto> (derive_app_id info reply fs)\<lparr>pending := []\<rparr>))"
  using assms
  by (cases "app_ids s")
     (auto simp add: got_credentials_cb_def entry_of_def g_hash_table_lookup_def
        g_hash_table_insert_def g_hash_table_remove_def Let_def derive_app_id_fields fun_eq_iff)

lemma name_owner_changed_queries [simp]:
  "queries (name_owner_changed s nm from to) = queries s"
  by (cases "app_ids s")
     (auto simp add: name_owner_changed_def ensure_app_ids_def Let_def split: option.splits)

lemma name_owner_changed_returned [simp]:
  "returned (name_owner_changed s nm from to) = returned s"
  by (cases "app_ids s")
     (auto simp add: name_owner_changed_def ensure_app_ids_def Let_def split: option.splits)

lemma name_owner_changed_entry_of:
  "entry_of (name_owner_changed s nm from to) =
     (if (case nm of [] \<Rightarrow> False | c # _ \<Rightarrow> c = CHR '':'') \<and> nm = from \<and> to = ''''
      then (case entry_of s nm of
              None \<Rightarrow> entry_of s
            | Some info \<Rightarrow>
                if pending info = [] then (entry_of s)(nm := None)
                else (entry_of s)(nm \<mapsto> info\<lparr>exited := True\<rparr>))
      else entry_of s)"
  by (cases "app_ids s")
     (auto simp add: name_owner_changed_def ensure_app_ids_def Let_def entry_of_def
        g_hash_table_lookup_def g_hash_table_insert_def g_hash_table_remove_def fun_eq_iff
        split: option.splits)

lemma table_inv_initial: "table_inv initial_state"
  by (simp add: table_inv_def entry_of_initial) (simp add: initial_state_def)

lemma table_inv_lookup:
  assumes "table_inv s"
  shows "table_inv (xdp_invocation_lookup_app_id s sender task)"
  using assms unfolding table_inv_def lookup_entry_of lookup_queries
  by (auto split: option.splits if_splits)

lemma table_inv_name_owner_changed:
  assumes "table_inv s"
  shows "table_inv (name_owner_changed s nm from to)"
  using assms unfolding table_inv_def name_owner_changed_entry_of
  by (auto split: option.splits if_splits)

lemma table_inv_credentials:
  assumes inv: "table_inv s" and key: "key \<in> set (queries s)"
    and cb: "got_credentials_cb (s\<lparr>queries := remove1 key (queries s)\<rparr>) key reply fs = Some s'"
  shows "table_inv s'"
proof -
  from inv key obtain info where info: "entry_of s key = Some info"
    unfolding table_inv_def by blast
  from inv info have nm: "name info = key" and pend: "pending info \<noteq> []"
    and unres: "app_id info = None"
    using key unfolding table_inv_def by auto
  from inv have dist: "distinct (queries s)"
    unfolding table_inv_def by simp
  let ?d = "derive_app_id info reply fs"
  from got_credentials_cb_Some [of "s\<lparr>queries := remove1 key (queries s)\<rparr>" key info reply fs] info cb
  have q: "queries s' = remove1 key (queries s)"
    and e: "entry_of s' =
       (if app_id ?d = None
        then ((entry_of s)(key \<mapsto> ?d\<lparr>pending := []\<rparr>))(name info := None)
        else (entry_of s)(key \<mapsto> ?d\<lparr>pending := []\<rparr>))"
    by auto
  have set_q: "set (queries s') = set (queries s) - {key}"
    using q dist by simp
  have dq: "distinct (queries s')"
    using q dist by simp
  show ?thesis
  proof (cases "app_id ?d")
    case None
    then have e': "entry_of s' = (entry_of s)(key := None)"
      using e nm by simp
    show ?thesis
      using inv dq unfolding table_inv_def e' set_q
      by auto
  next
    case (Some a)
    then have e': "entry_of s' = (entry_of s)(key \<mapsto> ?d\<lparr>pending := []\<rparr>)"
      using e by simp
    show ?thesis
      using inv dq Some nm unfolding table_inv_def e' set_q
      by (auto simp add: derive_app_id_fields)
  qed
qed

lemma table_inv_step:
  "table_inv s \<Longrightarrow> step s e = Some s' \<Longrightarrow> table_inv s'"
  by (cases e)
     (auto simp add: table_inv_lookup table_inv_name_owner_changed
        intro: table_inv_credentials split: if_splits)

lemma table_inv_run:
  "table_inv s \<Longrightarrow> run s evs = Some s' \<Longrightarrow> table_inv s'"
  by (induction evs arbitrary: s) (auto dest: table_inv_step split: option.splits)

lemma reachable_inv:
  "run initial_state evs = Some s \<Longrightarrow> table_inv s"
  using table_inv_run [OF table_inv_initial] .

lemma in_flight_entry:
  assumes "table_inv s" and "key \<in> set (queries s)"
  shows "\<exists>info. entry_of s key = Some info \<and> name info = key \<and> app_id info = None
    \<and> pending info \<noteq> []"
  using assms unfolding table_inv_def by auto

lemma step_credentials:
  assumes key: "key \<in> set (queries s)" and info: "entry_of s key = Some info"
  shows "\<exists>s'. step s (Credentials key reply fs) = Some s' \<and>
     queries s' = remove1 key (queries s) \<and>
     returned s' = returned s @ return_pending (app_id (derive_app_id info reply fs)) (pending info) \<and>
     entry_of s' =
       (if app_id (derive_app_id info reply fs) = None
        then ((entry_of s)(key \<mapsto> (derive_app_id info reply fs)\<lparr>pending := []\<rparr>))(name info := None)
        else (entry_of s)(key \<mapsto> (derive_app_id info reply fs)\<lparr>pending := []\<rparr>))"
  using got_credentials_cb_Some [of "s\<lparr>queries := remove1 key (queries s)\<rparr>" key info reply fs]
    key info by (auto simp add: entry_of_def)

lemma derive_app_id_skip:
  "exited info \<or> reply = None \<Longrightarrow> derive_app_id info reply fs = info"
  by (auto simp add: derive_app_id_def)

lemmas cache_defs = initial_state_def xdp_invocation_lookup_app_id_def ensure_app_ids_def
  g_hash_table_lookup_def g_hash_table_insert_def g_hash_table_remove_def got_credentials_cb_def
  derive_app_id_def name_owner_changed_def scan_line_def Let_def

lemma first_lookup:
  "run initial_state [Lookup '':1.5'' 7] =
     Some (xdp_invocation_lookup_app_id initial_state '':1.5'' 7)"
  "queries (xdp_invocation_lookup_app_id initial_state '':1.5'' 7) = ['':1.5'']"
  "returned (xdp_invocation_lookup_app_id initial_state '':1.5'' 7) = []"
  "entry_of (xdp_invocation_lookup_app_id initial_state '':1.5'' 7) '':1.5'' =
     Some \<lparr>name = '':1.5'', app_id = None, exited = False, pending = [7]\<rparr>"
  by (simp_all add: lookup_queries lookup_returned lookup_entry_of entry_of_initial)
     (simp_all add: initial_state_def)

lemma distinct_count_one: "distinct xs \<Longrightarrow> x \<in> set xs \<Longrightarrow> count_list xs x = 1"
  by (induction xs) auto

text \<open>
  Claim C1. In every state that a run of the dispatcher reaches, a connection name
  with a credential query in flight has exactly one such query and an entry in the
  table; a further call of \<open>xdp_invocation_lookup_app_id\<close> for that name puts its
  task at the head of the pending list of that same entry, sends no query and
  completes nothing; and when the answer to the one query arrives, whatever it is,
  that task and all tasks that were pending before it are completed with one and the
  same result.
\<close>

theorem lookup_coalesces:
  assumes run: "run initial_state evs = Some s" and key: "sender \<in> set (queries s)"
  shows "\<exists>info. entry_of s sender = Some info \<and>
     count_list (queries s) sender = 1 \<and>
     queries (xdp_invocation_lookup_app_id s sender task) = queries s \<and>
     returned (xdp_invocation_lookup_app_id s sender task) = returned s \<and>
     entry_of (xdp_invocation_lookup_app_id s sender task) sender =
       Some (info\<lparr>pending := task # pending info\<rparr>) \<and>
     (\<forall>reply proc_cgroup. \<exists>s' r.
        step (xdp_invocation_lookup_app_id s sender task) (Credentials sender reply proc_cgroup)
          = Some s' \<and>
        returned s' = returned s @ map (\<lambda>t. (t, r)) (task # pending info) \<and>
        sender \<notin> set (queries s'))"
proof -
  have inv: "table_inv s" using run by (rule reachable_inv)
  from in_flight_entry [OF inv key] obtain info where
    info: "entry_of s sender = Some info" and nm: "name info = sender"
    and unres: "app_id info = None" and pend: "pending info \<noteq> []"
    by blast
  let ?s1 = "xdp_invocation_lookup_app_id s sender task"
  let ?info1 = "info\<lparr>pending := task # pending info\<rparr>"
  have dist: "distinct (queries s)" using inv unfolding table_inv_def by simp
  have cnt: "count_list (queries s) sender = 1"
    using dist key by (rule distinct_count_one)
  have q1: "queries ?s1 = queries s"
    using info unres pend by (simp add: lookup_queries)
  have r1: "returned ?s1 = returned s"
    using info unres by (simp add: lookup_returned)
  have e1: "entry_of ?s1 sender = Some ?info1"
    using info unres by (simp add: lookup_entry_of)
  have key1: "sender \<in> set (queries ?s1)" using key q1 by simp
  have "\<exists>s' r. step ?s1 (Credentials sender reply fs) = Some s' \<and>
        returned s' = returned s @ map (\<lambda>t. (t, r)) (task # pending info) \<and>
        sender \<notin> set (queries s')" for reply fs
  proof -
    from step_credentials [OF key1 e1, of reply fs] obtain s' where
      st: "step ?s1 (Credentials sender reply fs) = Some s'"
      and q: "queries s' = remove1 sender (queries ?s1)"
      and r: "returned s' = returned ?s1 @
         return_pending (app_id (derive_app_id ?info1 reply fs)) (pending ?info1)"
      by blast
    have "sender \<notin> set (queries s')" using q q1 dist by simp
    then show ?thesis
      using st r r1 unfolding return_pending_map by auto
  qed
  then show ?thesis using info cnt q1 r1 e1 by blast
qed

theorem lookup_coalesces_witness:
  "run initial_state [Lookup '':1.5'' 7] =
     Some (xdp_invocation_lookup_app_id initial_state '':1.5'' 7) \<and>
   '':1.5'' \<in> set (queries (xdp_invocation_lookup_app_id initial_state '':1.5'' 7)) \<and>
   queries (xdp_invocation_lookup_app_id
      (xdp_invocation_lookup_app_id initial_state '':1.5'' 7) '':1.5'' 8) = ['':1.5''] \<and>
   returned (xdp_invocation_lookup_app_id
      (xdp_invocation_lookup_app_id initial_state '':1.5'' 7) '':1.5'' 8) = [] \<and>
   (\<exists>s' r. step (xdp_invocation_lookup_app_id
        (xdp_invocation_lookup_app_id initial_state '':1.5'' 7) '':1.5'' 8)
       (Credentials '':1.5'' None Map.empty) = Some s' \<and>
      returned s' = [(8, r), (7, r)])"
proof -
  let ?s1 = "xdp_invocation_lookup_app_id initial_state '':1.5'' 7"
  have k: "'':1.5'' \<in> set (queries ?s1)"
    by (simp add: first_lookup)
  from lookup_coalesces [OF first_lookup(1) k, of 8] obtain info where
    e: "entry_of ?s1 '':1.5'' = Some info"
    and q: "queries (xdp_invocation_lookup_app_id ?s1 '':1.5'' 8) = queries ?s1"
    and r: "returned (xdp_invocation_lookup_app_id ?s1 '':1.5'' 8) = returned ?s1"
    and c: "\<forall>reply proc_cgroup. \<exists>s' r.
        step (xdp_invocation_lookup_app_id ?s1 '':1.5'' 8) (Credentials '':1.5'' reply proc_cgroup)
          = Some s' \<and>
        returned s' = returned ?s1 @ map (\<lambda>t. (t, r)) (8 # pending info) \<and>
        '':1.5'' \<notin> set (queries s')"
    by blast
  from e have info: "pending info = [7]"
    by (auto simp add: first_lookup)
  from c obtain s' r where
    "step (xdp_invocation_lookup_app_id ?s1 '':1.5'' 8) (Credentials '':1.5'' None Map.empty)
       = Some s'"
    and "returned s' = returned ?s1 @ map (\<lambda>t. (t, r)) (8 # pending info)"
    by blast
  then have "\<exists>s' r. step (xdp_invocation_lookup_app_id ?s1 '':1.5'' 8)
       (Credentials '':1.5'' None Map.empty) = Some s' \<and> returned s' = [(8, r), (7, r)]"
    unfolding info first_lookup by (intro exI [of _ s'] exI [of _ r]) simp
  then show ?thesis
    using first_lookup(1) k q r unfolding first_lookup by blast
qed

lemma credentials_skip:
  assumes k: "key \<in> set (queries t)" and i: "entry_of t key = Some i"
    and nm: "name i = key" and unres: "app_id i = None" and ex: "exited i \<or> reply = None"
  shows "\<exists>s'. step t (Credentials key reply fs) = Some s' \<and>
         returned s' = returned t @ map (\<lambda>t. (t, Inl XDP_ERROR_FAILED)) (pending i) \<and>
         entry_of s' key = None"
proof -
  have d: "derive_app_id i reply fs = i"
    using ex by (rule derive_app_id_skip)
  from step_credentials [OF k i, of reply fs] obtain s' where
    st: "step t (Credentials key reply fs) = Some s'"
    and r: "returned s' = returned t @ return_pending (app_id i) (pending i)"
    and e: "entry_of s' = ((entry_of t)(key \<mapsto> i\<lparr>pending := []\<rparr>))(name i := None)"
    unfolding d using unres by auto
  have "entry_of s' key = None" using e nm by simp
  moreover have "returned s' = returned t @ map (\<lambda>t. (t, Inl XDP_ERROR_FAILED)) (pending i)"
    using r unres by (simp add: return_pending_map)
  ultimately show ?thesis using st by blast
qed

text \<open>
  The callback on an entry that is marked as exited, or without a reply. Take a
  reachable state and a connection name with a query in flight. If the entry is marked
  as exited, or the query comes back without a reply, the callback leaves the entry as
  it is (no application id is derived, it stays unresolved), completes every pending
  task with the error \<open>XDP_ERROR_FAILED\<close> and removes the entry from the table. In
  particular, a \<open>NameOwnerChanged\<close> signal for the loss of the name that arrives while
  the query is in flight marks the entry as exited and keeps it, and the callback,
  whatever reply it gets, then fails all pending tasks and removes the entry.
\<close>

theorem exited_or_no_reply:
  assumes run: "run initial_state evs = Some s" and key: "key \<in> set (queries s)"
    and info: "entry_of s key = Some info"
  shows "(exited info \<or> reply = None \<longrightarrow>
      derive_app_id info reply proc_cgroup = info \<and> app_id info = None \<and>
      (\<exists>s'. step s (Credentials key reply proc_cgroup) = Some s' \<and>
         returned s' = returned s @ map (\<lambda>t. (t, Inl XDP_ERROR_FAILED)) (pending info) \<and>
         entry_of s' key = None)) \<and>
    ((case key of [] \<Rightarrow> False | c # _ \<Rightarrow> c = CHR '':'') \<longrightarrow>
      entry_of (name_owner_changed s key key '''') key = Some (info\<lparr>exited := True\<rparr>) \<and>
      (\<exists>s'. step (name_owner_changed s key key '''') (Credentials key reply proc_cgroup) = Some s' \<and>
         returned s' = returned s @ map (\<lambda>t. (t, Inl XDP_ERROR_FAILED)) (pending info) \<and>
         entry_of s' key = None))"
proof -
  have inv: "table_inv s" using run by (rule reachable_inv)
  from in_flight_entry [OF inv key] info have nm: "name info = key"
    and unres: "app_id info = None" and pend: "pending info \<noteq> []"
    by auto
  note skip = credentials_skip [where reply = reply and fs = proc_cgroup]
  have first: "exited info \<or> reply = None \<longrightarrow>
      derive_app_id info reply proc_cgroup = info \<and> app_id info = None \<and>
      (\<exists>s'. step s (Credentials key reply proc_cgroup) = Some s' \<and>
         returned s' = returned s @ map (\<lambda>t. (t, Inl XDP_ERROR_FAILED)) (pending info) \<and>
         entry_of s' key = None)"
    using skip [OF key info nm unres] unres derive_app_id_skip by blast
  have second: "entry_of (name_owner_changed s key key '''') key = Some (info\<lparr>exited := True\<rparr>) \<and>
      (\<exists>s'. step (name_owner_changed s key key '''') (Credentials key reply proc_cgroup) = Some s' \<and>
         returned s' = returned s @ map (\<lambda>t. (t, Inl XDP_ERROR_FAILED)) (pending info) \<and>
         entry_of s' key = None)"
    if colon: "case key of [] \<Rightarrow> False | c # _ \<Rightarrow> c = CHR '':''"
  proof -
    let ?t = "name_owner_changed s key key ''''"
    have e: "entry_of ?t key = Some (info\<lparr>exited := True\<rparr>)"
      using colon info pend by (simp add: name_owner_changed_entry_of)
    have k: "key \<in> set (queries ?t)" using key by simp
    have "\<exists>s'. step ?t (Credentials key reply proc_cgroup) = Some s' \<and>
         returned s' = returned ?t @
           map (\<lambda>t. (t, Inl XDP_ERROR_FAILED)) (pending (info\<lparr>exited := True\<rparr>)) \<and>
         entry_of s' key = None"
      using nm unres by (intro skip [OF k e]) simp_all
    then show ?thesis using e by simp
  qed
  from first second show ?thesis by blast
qed

theorem exited_or_no_reply_witness:
  "run initial_state [Lookup '':1.5'' 7] =
     Some (xdp_invocation_lookup_app_id initial_state '':1.5'' 7) \<and>
   '':1.5'' \<in> set (queries (xdp_invocation_lookup_app_id initial_state '':1.5'' 7)) \<and>
   entry_of (xdp_invocation_lookup_app_id initial_state '':1.5'' 7) '':1.5'' =
     Some \<lparr>name = '':1.5'', app_id = None, exited = False, pending = [7]\<rparr> \<and>
   (\<exists>s'. step (xdp_invocation_lookup_app_id initial_state '':1.5'' 7)
        (Credentials '':1.5'' None Map.empty) = Some s' \<and>
      returned s' = [(7, Inl XDP_ERROR_FAILED)] \<and> entry_of s' '':1.5'' = None) \<and>
   (\<exists>s'. step (name_owner_changed (xdp_invocation_lookup_app_id initial_state '':1.5'' 7)
          '':1.5'' '':1.5'' '''')
        (Credentials '':1.5'' (Some 42) [42 \<mapsto> ''1:name=systemd:/system.slice/other.service''])
        = Some s' \<and>
      returned s' = [(7, Inl XDP_ERROR_FAILED)] \<and> entry_of s' '':1.5'' = None)"
proof -
  let ?s1 = "xdp_invocation_lookup_app_id initial_state '':1.5'' 7"
  let ?info = "\<lparr>name = '':1.5'', app_id = None, exited = False, pending = [7]\<rparr>"
  have k: "'':1.5'' \<in> set (queries ?s1)"
    by (simp add: first_lookup)
  have failed: "exited ?info \<or> (None :: 32 word option) = None"
    by simp
  have colon: "case '':1.5'' of [] \<Rightarrow> False | c # _ \<Rightarrow> c = CHR '':''"
    by simp
  from exited_or_no_reply [OF first_lookup(1) k first_lookup(4), of None Map.empty] failed
  have a: "\<exists>s'. step ?s1 (Credentials '':1.5'' None Map.empty) = Some s' \<and>
      returned s' = returned ?s1 @ map (\<lambda>t. (t, Inl XDP_ERROR_FAILED)) (pending ?info) \<and>
      entry_of s' '':1.5'' = None"
    by blast
  from exited_or_no_reply [OF first_lookup(1) k first_lookup(4), of "Some 42"
      "[42 \<mapsto> ''1:name=systemd:/system.slice/other.service'']"] colon
  have b: "\<exists>s'. step (name_owner_changed ?s1 '':1.5'' '':1.5'' '''')
        (Credentials '':1.5'' (Some 42) [42 \<mapsto> ''1:name=systemd:/system.slice/other.service''])
        = Some s' \<and>
      returned s' = returned ?s1 @ map (\<lambda>t. (t, Inl XDP_ERROR_FAILED)) (pending ?info) \<and>
      entry_of s' '':1.5'' = None"
    by blast
  from a b show ?thesis
    using first_lookup(1) k first_lookup(4) unfolding first_lookup(3) by simp
qed

text \<open>
  Claim C2. A credential query that failed is to leave the application id unresolved,
  fail every pending task with \<open>XDP_ERROR_FAILED\<close> and have the entry removed. The
  callback does so when there is no reply at all, but not when the bus answers the
  query with an error message: the test at line 162 lets that reply pass, and the
  derivation runs on whatever \<open>pid\<close> held. Here the query of task 7 is answered with an
  error message, \<open>pid\<close> happens to hold 1, and the control-group file of process 1
  names no application scope: the entry is changed by the derivation, task 7 is
  completed with the empty application id instead of the error, and the entry stays
  in the table as resolved.
\<close>

theorem error_message_not_skipped:
  "credentials_reply Error_Message 1 \<noteq> None \<and>
   derive_app_id \<lparr>name = '':1.5'', app_id = None, exited = False, pending = [7]\<rparr>
       (credentials_reply Error_Message 1) [1 \<mapsto> ''1:name=systemd:/init.scope''] =
     \<lparr>name = '':1.5'', app_id = Some '''', exited = False, pending = [7]\<rparr> \<and>
   (\<exists>s'. run initial_state
        [Lookup '':1.5'' 7,
         Credentials '':1.5'' (credentials_reply Error_Message 1)
           [1 \<mapsto> ''1:name=systemd:/init.scope'']] = Some s' \<and>
      returned s' = [(7, Inr '''')] \<and>
      entry_of s' '':1.5'' =
        Some \<lparr>name = '':1.5'', app_id = Some '''', exited = False, pending = []\<rparr>)"
  by (simp add: credentials_reply_def cache_defs string_helper_defs entry_of_def)

text \<open>
  Claim C3. Take a reachable state and a connection name with a query in flight. If
  the callback ends with the application id still unresolved, the entry is no longer
  in the table and no query for the name is in flight; the next call of
  \<open>xdp_invocation_lookup_app_id\<close> for the name makes a new entry, with that call's task
  as its only waiter, and sends a new credential query.
\<close>

theorem failure_not_cached:
  assumes run: "run initial_state evs = Some s" and key: "key \<in> set (queries s)"
    and info: "entry_of s key = Some info"
    and unres: "app_id (derive_app_id info reply proc_cgroup) = None"
  shows "\<exists>s'. step s (Credentials key reply proc_cgroup) = Some s' \<and>
     entry_of s' key = None \<and> key \<notin> set (queries s') \<and>
     entry_of (xdp_invocation_lookup_app_id s' key task) key =
       Some \<lparr>name = key, app_id = None, exited = False, pending = [task]\<rparr> \<and>
     queries (xdp_invocation_lookup_app_id s' key task) = queries s' @ [key] \<and>
     returned (xdp_invocation_lookup_app_id s' key task) = returned s'"
proof -
  have inv: "table_inv s" using run by (rule reachable_inv)
  from in_flight_entry [OF inv key] info have nm: "name info = key"
    by auto
  have dist: "distinct (queries s)" using inv unfolding table_inv_def by simp
  from step_credentials [OF key info, of reply proc_cgroup] obtain s' where
    st: "step s (Credentials key reply proc_cgroup) = Some s'"
    and q: "queries s' = remove1 key (queries s)"
    and e': "entry_of s' =
       ((entry_of s)(key \<mapsto> (derive_app_id info reply proc_cgroup)\<lparr>pending := []\<rparr>))
         (name info := None)"
    using unres by auto
  have e: "entry_of s' key = None" using e' nm by simp
  have nq: "key \<notin> set (queries s')" using q dist by simp
  have "entry_of (xdp_invocation_lookup_app_id s' key task) key =
       Some \<lparr>name = key, app_id = None, exited = False, pending = [task]\<rparr> \<and>
     queries (xdp_invocation_lookup_app_id s' key task) = queries s' @ [key] \<and>
     returned (xdp_invocation_lookup_app_id s' key task) = returned s'"
    using e by (simp add: lookup_entry_of lookup_queries lookup_returned)
  then show ?thesis using st e nq by blast
qed

theorem failure_not_cached_witness:
  "run initial_state [Lookup '':1.5'' 7] =
     Some (xdp_invocation_lookup_app_id initial_state '':1.5'' 7) \<and>
   '':1.5'' \<in> set (queries (xdp_invocation_lookup_app_id initial_state '':1.5'' 7)) \<and>
   app_id (derive_app_id \<lparr>name = '':1.5'', app_id = None, exited = False, pending = [7]\<rparr>
      None Map.empty) = None \<and>
   (\<exists>s'. step (xdp_invocation_lookup_app_id initial_state '':1.5'' 7)
        (Credentials '':1.5'' None Map.empty) = Some s' \<and>
      entry_of s' '':1.5'' = None \<and> '':1.5'' \<notin> set (queries s') \<and>
      entry_of (xdp_invocation_lookup_app_id s' '':1.5'' 8) '':1.5'' =
        Some \<lparr>name = '':1.5'', app_id = None, exited = False, pending = [8]\<rparr> \<and>
      queries (xdp_invocation_lookup_app_id s' '':1.5'' 8) = queries s' @ ['':1.5''] \<and>
      returned (xdp_invocation_lookup_app_id s' '':1.5'' 8) = returned s')"
proof -
  let ?s1 = "xdp_invocation_lookup_app_id initial_state '':1.5'' 7"
  let ?info = "\<lparr>name = '':1.5'', app_id = None, exited = False, pending = [7]\<rparr>"
  have k: "'':1.5'' \<in> set (queries ?s1)"
    by (simp add: first_lookup)
  have unres: "app_id (derive_app_id ?info None Map.empty) = None"
    by (simp add: derive_app_id_def)
  from failure_not_cached [OF first_lookup(1) k first_lookup(4) unres, of 8]
  show ?thesis
    using first_lookup(1) k unres by simp
qed

lemma lookups_pending:
  assumes "entry_of s key = Some info" and "app_id info = None" and "pending info \<noteq> []"
  shows "entry_of (foldl (\<lambda>s t. xdp_invocation_lookup_app_id s key t) s ts) key =
      Some (info\<lparr>pending := rev ts @ pending info\<rparr>) \<and>
    queries (foldl (\<lambda>s t. xdp_invocation_lookup_app_id s key t) s ts) = queries s \<and>
    returned (foldl (\<lambda>s t. xdp_invocation_lookup_app_id s key t) s ts) = returned s"
  using assms
proof (induction ts arbitrary: s info)
  case Nil
  then show ?case by simp
next
  case (Cons t ts)
  let ?s1 = "xdp_invocation_lookup_app_id s key t"
  let ?info1 = "info\<lparr>pending := t # pending info\<rparr>"
  have e1: "entry_of ?s1 key = Some ?info1"
    using Cons.prems by (simp add: lookup_entry_of)
  have q1: "queries ?s1 = queries s" and r1: "returned ?s1 = returned s"
    using Cons.prems by (simp_all add: lookup_queries lookup_returned)
  from Cons.IH [OF e1] Cons.prems(2) q1 r1 show ?case by simp
qed

text \<open>
  Claim C5, as the code has it. \<open>xdp_invocation_lookup_app_id\<close> puts a new task at the
  head of the pending list and the callback walks the list from its head: when the
  answer to the one query in flight arrives, the tasks are completed in the reverse
  of the order in which they were enqueued (the task enqueued last is completed
  first), all with the same result.
\<close>

theorem waiters_completed_last_first:
  assumes run: "run initial_state evs = Some s"
    and unres: "entry_of s key = None \<or> key \<in> set (queries s)"
  shows "\<exists>s' r.
     step (foldl (\<lambda>s t. xdp_invocation_lookup_app_id s key t) s (t # ts))
       (Credentials key reply proc_cgroup) = Some s' \<and>
     returned s' = returned s @ map (\<lambda>t. (t, r)) (rev (t # ts) @ waiting s key)"
proof -
  have inv: "table_inv s" using run by (rule reachable_inv)
  let ?s1 = "xdp_invocation_lookup_app_id s key t"
  let ?sn = "foldl (\<lambda>s t. xdp_invocation_lookup_app_id s key t) ?s1 ts"
  have "\<exists>info1. entry_of ?s1 key = Some info1 \<and> app_id info1 = None \<and>
      pending info1 = t # waiting s key \<and> key \<in> set (queries ?s1) \<and> returned ?s1 = returned s"
  proof (cases "entry_of s key")
    case None
    then show ?thesis
      by (simp add: lookup_entry_of lookup_queries lookup_returned waiting_def)
  next
    case (Some info)
    with unres have key: "key \<in> set (queries s)" by simp
    from in_flight_entry [OF inv key] Some have "app_id info = None" "pending info \<noteq> []"
      by auto
    then show ?thesis
      using Some key by (simp add: lookup_entry_of lookup_queries lookup_returned waiting_def)
  qed
  then obtain info1 where e1: "entry_of ?s1 key = Some info1" and u1: "app_id info1 = None"
    and p1: "pending info1 = t # waiting s key" and k1: "key \<in> set (queries ?s1)"
    and r1: "returned ?s1 = returned s"
    by blast
  have p1': "pending info1 \<noteq> []" using p1 by simp
  from lookups_pending [OF e1 u1 p1', of ts]
  have en: "entry_of ?sn key = Some (info1\<lparr>pending := rev ts @ pending info1\<rparr>)"
    and kn: "key \<in> set (queries ?sn)" and rn: "returned ?sn = returned s"
    using k1 r1 by simp_all
  from step_credentials [OF kn en, of reply proc_cgroup] obtain s' where
    st: "step ?sn (Credentials key reply proc_cgroup) = Some s'"
    and r: "returned s' = returned ?sn @
      return_pending (app_id (derive_app_id (info1\<lparr>pending := rev ts @ pending info1\<rparr>) reply proc_cgroup))
        (rev ts @ pending info1)"
    by auto
  have "rev ts @ pending info1 = rev (t # ts) @ waiting s key"
    using p1 by simp
  then show ?thesis
    using st r rn unfolding return_pending_map by (simp del: step.simps)
qed

theorem waiters_completed_last_first_witness:
  "run initial_state [] = Some initial_state \<and>
   (entry_of initial_state '':1.5'' = None \<or> '':1.5'' \<in> set (queries initial_state)) \<and>
   (\<exists>s' r.
     step (foldl (\<lambda>s t. xdp_invocation_lookup_app_id s '':1.5'' t) initial_state [7, 8, 9])
       (Credentials '':1.5'' (Some 42) [42 \<mapsto> ''1:name=systemd:/system.slice/other.service''])
       = Some s' \<and>
     returned s' = [(9, r), (8, r), (7, r)])"
proof -
  have r: "run initial_state [] = Some initial_state"
    by simp
  have e: "entry_of initial_state '':1.5'' = None \<or> '':1.5'' \<in> set (queries initial_state)"
    by (simp add: entry_of_initial)
  have w: "waiting initial_state '':1.5'' = []"
    by (simp add: waiting_def entry_of_initial)
  have i: "returned initial_state = []"
    by (simp add: initial_state_def)
  from waiters_completed_last_first [OF r e, of 7 "[8, 9]" "Some 42"
      "[42 \<mapsto> ''1:name=systemd:/system.slice/other.service'']"]
  show ?thesis
    using r e unfolding w i by simp
qed

text \<open>
  The claim as the specification states it, completion in the order of enqueueing,
  fails: two calls enqueue task 7 and then task 8 for one connection name, and the
  callback completes task 8 before task 7.
\<close>

theorem waiters_enqueue_order_counterexample:
  "map_option (map fst \<circ> returned)
     (run initial_state
        [Lookup '':1.5'' 7, Lookup '':1.5'' 8,
         Credentials '':1.5'' (Some 42) [42 \<mapsto> ''1:name=systemd:/system.slice/other.service'']])
     = Some [8, 7] \<and>
   map_option (map fst \<circ> returned)
     (run initial_state
        [Lookup '':1.5'' 7, Lookup '':1.5'' 8,
         Credentials '':1.5'' (Some 42) [42 \<mapsto> ''1:name=systemd:/system.slice/other.service'']])
     \<noteq> Some [7, 8]"
  by (simp add: cache_defs string_helper_defs)

text \<open>
  Claim C6. If the table holds an entry without pending tasks under a unique
  connection name, the signal that this name lost its owner and got no new one removes
  the entry at once, sending and completing nothing, and the next call of
  \<open>xdp_invocation_lookup_app_id\<close> for the name makes a new entry and sends a new
  credential query. A signal about a name that the table does not hold changes
  nothing: the entries, the queries in flight and the completions stay as they are
  (the table itself is allocated if it was not yet).
\<close>

theorem name_owner_changed_idle:
  "(entry_of s nm = Some info \<and> pending info = [] \<and>
      (case nm of [] \<Rightarrow> False | c # _ \<Rightarrow> c = CHR '':'') \<longrightarrow>
      entry_of (name_owner_changed s nm nm '''') = (entry_of s)(nm := None) \<and>
      queries (name_owner_changed s nm nm '''') = queries s \<and>
      returned (name_owner_changed s nm nm '''') = returned s \<and>
      entry_of (xdp_invocation_lookup_app_id (name_owner_changed s nm nm '''') nm task) nm =
        Some \<lparr>name = nm, app_id = None, exited = False, pending = [task]\<rparr> \<and>
      queries (xdp_invocation_lookup_app_id (name_owner_changed s nm nm '''') nm task) =
        queries s @ [nm] \<and>
      returned (xdp_invocation_lookup_app_id (name_owner_changed s nm nm '''') nm task) =
        returned s) \<and>
   (entry_of s nm = None \<longrightarrow>
      name_owner_changed s nm from to = ensure_app_ids s \<and>
      (app_ids s \<noteq> None \<longrightarrow> name_owner_changed s nm from to = s) \<and>
      entry_of (name_owner_changed s nm from to) = entry_of s \<and>
      queries (name_owner_changed s nm from to) = queries s \<and>
      returned (name_owner_changed s nm from to) = returned s)"
proof (intro conjI impI)
  assume "entry_of s nm = None"
  then have "g_hash_table_lookup (app_ids (ensure_app_ids s)) nm = None"
    by (cases "app_ids s")
       (simp_all add: entry_of_def ensure_app_ids_def g_hash_table_lookup_def)
  then show "name_owner_changed s nm from to = ensure_app_ids s"
    by (auto simp add: name_owner_changed_def Let_def)
  then show "name_owner_changed s nm from to = s" if "app_ids s \<noteq> None"
    using that by (auto simp add: ensure_app_ids_def)
  show "entry_of (name_owner_changed s nm from to) = entry_of s"
    using \<open>entry_of s nm = None\<close> by (auto simp add: name_owner_changed_entry_of)
qed (simp_all add: name_owner_changed_entry_of lookup_entry_of lookup_queries lookup_returned)

theorem name_owner_changed_idle_witness:
  "entry_of \<lparr>app_ids = Some ['':1.5'' \<mapsto>
        \<lparr>name = '':1.5'', app_id = Some ''org.test.App'', exited = False, pending = []\<rparr>],
      queries = [], returned = []\<rparr> '':1.5'' =
     Some \<lparr>name = '':1.5'', app_id = Some ''org.test.App'', exited = False, pending = []\<rparr> \<and>
   entry_of (name_owner_changed \<lparr>app_ids = Some ['':1.5'' \<mapsto>
        \<lparr>name = '':1.5'', app_id = Some ''org.test.App'', exited = False, pending = []\<rparr>],
      queries = [], returned = []\<rparr> '':1.5'' '':1.5'' '''') '':1.5'' = None \<and>
   queries (xdp_invocation_lookup_app_id (name_owner_changed \<lparr>app_ids = Some ['':1.5'' \<mapsto>
        \<lparr>name = '':1.5'', app_id = Some ''org.test.App'', exited = False, pending = []\<rparr>],
      queries = [], returned = []\<rparr> '':1.5'' '':1.5'' '''') '':1.5'' 7) = ['':1.5''] \<and>
   entry_of initial_state '':1.7'' = None \<and>
   name_owner_changed initial_state '':1.7'' '':1.7'' '''' = ensure_app_ids initial_state \<and>
   entry_of (name_owner_changed initial_state '':1.7'' '':1.7'' '''') = entry_of initial_state \<and>
   queries (name_owner_changed initial_state '':1.7'' '':1.7'' '''') = [] \<and>
   returned (name_owner_changed initial_state '':1.7'' '':1.7'' '''') = []"
proof -
  let ?info = "\<lparr>name = '':1.5'', app_id = Some ''org.test.App'', exited = False, pending = []\<rparr>"
  let ?s = "\<lparr>app_ids = Some ['':1.5'' \<mapsto> ?info], queries = [], returned = []\<rparr>"
  have e: "entry_of ?s '':1.5'' = Some ?info"
    by (simp add: entry_of_def g_hash_table_lookup_def)
  have idle: "pending ?info = []"
    by simp
  have colon: "case '':1.5'' of [] \<Rightarrow> False | c # _ \<Rightarrow> c = CHR '':''"
    by simp
  have absent: "entry_of initial_state '':1.7'' = None"
    by (rule entry_of_initial)
  have i: "queries initial_state = []" "returned initial_state = []"
    by (simp_all add: initial_state_def)
  from name_owner_changed_idle [of ?s "'':1.5''" ?info 7] e idle colon
  have a: "entry_of (name_owner_changed ?s '':1.5'' '':1.5'' '''') = (entry_of ?s)('':1.5'' := None)"
    and b: "queries (xdp_invocation_lookup_app_id (name_owner_changed ?s '':1.5'' '':1.5'' '''')
        '':1.5'' 7) = queries ?s @ ['':1.5'']"
    by blast+
  from name_owner_changed_idle [of initial_state "'':1.7''" _ _ "'':1.7''" "''''"] absent
  have c: "name_owner_changed initial_state '':1.7'' '':1.7'' '''' = ensure_app_ids initial_state"
    and d: "entry_of (name_owner_changed initial_state '':1.7'' '':1.7'' '''') =
      entry_of initial_state"
    and f: "queries (name_owner_changed initial_state '':1.7'' '':1.7'' '''') =
      queries initial_state"
    and g: "returned (name_owner_changed initial_state '':1.7'' '':1.7'' '''') =
      returned initial_state"
    by blast+
  show ?thesis
    using e absent c d unfolding a b f g i by simp
qed

end
